theory Spec2Isabelle
  imports Main "HOL-Library.AList"
begin

section \<open>JavaScript objects as ordered property lists\<close>

text \<open>
  A plain JavaScript object with string keys is modelled by the list of its own
  properties in the order \<^verbatim>\<open>Object.entries\<close> enumerates them: the array indices
  (canonical decimal numerals below \<open>2^32 - 1\<close>) in ascending order first, then the other
  keys in the order of their creation.
\<close>

type_synonym 'v obj = "(string \<times> 'v) list"

definition digit_of :: "char \<Rightarrow> nat option" where
  "digit_of c =
     (let n = (of_char c :: nat) in if 48 \<le> n \<and> n \<le> 57 then Some (n - 48) else None)"

fun decimal :: "nat \<Rightarrow> string \<Rightarrow> nat option" where
  "decimal acc [] = Some acc"
| "decimal acc (c # cs) =
     (case digit_of c of None \<Rightarrow> None | Some d \<Rightarrow> decimal (10 * acc + d) cs)"

text \<open>The array index a property key denotes, if it is one.\<close>

definition array_index :: "string \<Rightarrow> nat option" where
  "array_index k =
     (case k of
        [] \<Rightarrow> None
      | c # cs \<Rightarrow>
          if c = CHR ''0'' \<and> cs \<noteq> [] then None
          else (case decimal 0 k of
                  None \<Rightarrow> None
                | Some n \<Rightarrow> if n < 4294967295 then Some n else None))"

text \<open>The own property \<open>k\<close> of an object (\<open>None\<close> when there is none).\<close>

definition obj_get :: "'v obj \<Rightarrow> string \<Rightarrow> 'v option" where
  "obj_get ob k = map_of ob k"

text \<open>A new property whose key is the array index \<open>i\<close> goes before the first property
  whose key is a greater index or no index.\<close>

fun insert_index :: "nat \<Rightarrow> string \<Rightarrow> 'v \<Rightarrow> 'v obj \<Rightarrow> 'v obj" where
  "insert_index i k v [] = [(k, v)]"
| "insert_index i k v (p # ob) =
     (case array_index (fst p) of
        None \<Rightarrow> (k, v) # p # ob
      | Some j \<Rightarrow> if j < i then p # insert_index i k v ob else (k, v) # p # ob)"

text \<open>Defining the data property \<open>k\<close>: an existing property keeps its place and takes the
  new value; a new one is created, at its place in the enumeration order.\<close>

definition obj_set :: "'v obj \<Rightarrow> string \<Rightarrow> 'v \<Rightarrow> 'v obj" where
  "obj_set ob k v =
     (if k \<in> fst ` set ob then AList.update k v ob
      else (case array_index k of
              None \<Rightarrow> ob @ [(k, v)]
            | Some i \<Rightarrow> insert_index i k v ob))"

text \<open>The object spread \<^verbatim>\<open>{ ...a, ...b }\<close>: the properties of \<open>a\<close>, then each
  property of \<open>b\<close> defined in its order.\<close>

definition spread :: "'v obj \<Rightarrow> 'v obj \<Rightarrow> 'v obj" where
  "spread a b = fold (\<lambda>(k, v) acc. obj_set acc k v) b a"

text \<open>\<^verbatim>\<open>Object.fromEntries(entries)\<close>.\<close>

definition fromEntries :: "(string \<times> 'v) list \<Rightarrow> 'v obj" where
  "fromEntries es = spread [] es"

text \<open>A list is the property list of an object only if no key occurs twice.\<close>

definition is_obj :: "'v obj \<Rightarrow> bool" where
  "is_obj ob = distinct (map fst ob)"

text \<open>
  The own enumerable properties of a string, which an object spread of a string copies:
  its characters under their positions.
\<close>

fun numeral_of :: "nat \<Rightarrow> nat \<Rightarrow> string \<Rightarrow> string" where
  "numeral_of 0 n acc = acc"
| "numeral_of (Suc fuel) n acc =
     (if n < 10 then char_of (48 + n) # acc
      else numeral_of fuel (n div 10) (char_of (48 + n mod 10) # acc))"

definition index_key :: "nat \<Rightarrow> string" where
  "index_key n = numeral_of (Suc n) n []"

definition string_entries :: "string \<Rightarrow> (string \<times> char) list" where
  "string_entries v = zip (map index_key [0..<length v]) v"

text \<open>
  Reading \<^verbatim>\<open>o[k]\<close> on a plain object also finds what the object inherits from
  \<^verbatim>\<open>Object.prototype\<close>: built-in functions and, under \<^verbatim>\<open>__proto__\<close>, the prototype
  itself.  None of these is \<^verbatim>\<open>undefined\<close> or \<^verbatim>\<open>null\<close>, none is iterable, and none has a
  property \<^verbatim>\<open>media\<close>, \<^verbatim>\<open>value\<close> or \<^verbatim>\<open>matches\<close>.
\<close>

definition object_prototype :: "string list" where
  "object_prototype =
     [''constructor'', ''__defineGetter__'', ''__defineSetter__'', ''hasOwnProperty'',
      ''__lookupGetter__'', ''__lookupSetter__'', ''isPrototypeOf'', ''propertyIsEnumerable'',
      ''toString'', ''valueOf'', ''__proto__'', ''toLocaleString'']"

datatype 'v lookup = Own 'v | Inherited | Absent

definition obj_read :: "'v obj \<Rightarrow> string \<Rightarrow> 'v lookup" where
  "obj_read ob k =
     (case obj_get ob k of
        Some v \<Rightarrow> Own v
      | None \<Rightarrow> if k \<in> set object_prototype then Inherited else Absent)"

section \<open>Data model of \<^verbatim>\<open>palettez/src/index.ts\<close>\<close>

definition PACKAGE_NAME :: string where
  "PACKAGE_NAME = ''palettez''"

text \<open>\<^verbatim>\<open>type ThemeOption = { value: string; media?: [string, string, string] }\<close>\<close>

record ThemeOption =
  option_value :: string
  option_media :: "(string \<times> string \<times> string) option"

text \<open>An entry of \<^verbatim>\<open>options: Array<string | ThemeOption>\<close>.\<close>

datatype option_decl = Str string | Opt ThemeOption

record theme_decl =
  options :: "option_decl list"
  defaultOption :: "string option"

text \<open>
  An entry of \<^verbatim>\<open>systemOptions\<close> is declared a pair \<^verbatim>\<open>[ifMatch, ifNotMatch]\<close>.  The one
  other value the store can put there is a one-character string, which \<^verbatim>\<open>restore\<close>
  copies from a string it spreads; destructuring it gives the character and
  \<^verbatim>\<open>undefined\<close>.
\<close>

datatype override = Outcomes string string | Character char

definition destructure :: "override \<Rightarrow> string option \<times> string option" where
  "destructure ov = (case ov of Outcomes a b \<Rightarrow> (Some a, Some b) | Character c \<Rightarrow> (Some [c], None))"

type_synonym ThemeConfig = "theme_decl obj"
type_synonym KeyedThemeConfig = "(ThemeOption obj) obj"
type_synonym Themes = "string obj"
type_synonym SystemOptions = "override obj"

text \<open>A resolved view; the value of a dimension may be \<^verbatim>\<open>undefined\<close> (\<open>None\<close>).\<close>

type_synonym ResolvedThemes = "string option obj"

text \<open>\<^verbatim>\<open>type PersistedState\<close>, as a value read from a storage backend.\<close>

record PersistedState =
  version :: nat
  themes :: Themes
  systemOptions :: SystemOptions

text \<open>
  What a storage backend hands back, for the payloads of the types the store declares:
  \<^verbatim>\<open>null\<close>; a bare selection, that is an object all of whose properties are strings
  (whatever their keys); or an envelope with the properties \<^verbatim>\<open>version\<close>, \<^verbatim>\<open>themes\<close> and
  \<^verbatim>\<open>systemOptions\<close>.
\<close>

datatype persisted = Null | Legacy Themes | Envelope PersistedState

text \<open>
  The object \<^verbatim>\<open>getStateToPersist\<close> builds holds the store's \<^verbatim>\<open>#systemOptions\<close> object
  itself, not a copy.  The overrides objects a store has had are numbered in the order
  it took them up; \<open>ref_systemOptions\<close> is the number of the one the envelope holds.
\<close>

record StateRef =
  ref_version :: nat
  ref_themes :: Themes
  ref_systemOptions :: nat

text \<open>\<^verbatim>\<open>initialState?: Partial<PersistedState<T>>\<close>: each field may be absent.\<close>

record InitialState =
  init_themes :: "Themes option"
  init_systemOptions :: "SystemOptions option"

text \<open>Errors are values.  A \<^verbatim>\<open>TypeError\<close> records the read that raised it; \<open>Rejected\<close>
  is whatever a storage backend rejects or throws with.\<close>

datatype undefined_read =
    ConfigTheme    \<comment> \<open>\<^verbatim>\<open>config[themeKey]\<close> is undefined, and \<^verbatim>\<open>[optionKey]\<close> is read of it\<close>
  | ConfigOption   \<comment> \<open>the option is undefined or null, and \<^verbatim>\<open>.media\<close> is read of it\<close>
  | SystemOption   \<comment> \<open>\<^verbatim>\<open>systemOptions[themeKey]\<close> is destructured and is not iterable\<close>
  | FirstOption    \<comment> \<open>\<^verbatim>\<open>options[0]\<close> is undefined, and \<^verbatim>\<open>.value\<close> is read of it\<close>

datatype error = NotFound string | TypeError undefined_read | Rejected string

text \<open>
  The storage adapter as the store sees it.  The medium itself is external; the
  adapter's functions give the outcome of a call, from the content of the value at the
  time of the call, and the calls are recorded as effects.
\<close>

record StorageAdapter =
  getItem :: "string \<Rightarrow> error + persisted"
  setItem :: "string \<Rightarrow> PersistedState \<Rightarrow> error + unit"
  has_broadcast :: bool
  has_watch :: bool

text \<open>
  The environment: the module constant \<^verbatim>\<open>isClient\<close>, the live \<^verbatim>\<open>matches\<close> flag of
  \<^verbatim>\<open>window.matchMedia(query)\<close>, and the built-in objects: \<open>builtin_member n k\<close> tells
  whether property \<open>k\<close> of the value inherited under the name \<open>n\<close> of \<^verbatim>\<open>Object.prototype\<close>
  can be read and is neither \<^verbatim>\<open>undefined\<close> nor \<^verbatim>\<open>null\<close>.
\<close>

record env =
  isClient :: bool
  matches :: "string \<Rightarrow> bool"
  builtin_member :: "string \<Rightarrow> string \<Rightarrow> bool"

text \<open>
  Observable effects, in the order they happen.  A listener is identified by a number;
  listeners are taken to be passive observers that do not call back into the store.
  \<open>Unhandled\<close> is the rejection of a promise that nothing awaits.
\<close>

datatype effect =
    Notify nat Themes ResolvedThemes   \<comment> \<open>listener, \<^verbatim>\<open>themes\<close>, \<^verbatim>\<open>resolvedThemes\<close>\<close>
  | Warn
  | GetItem string
  | SetItem string StateRef
  | Broadcast string StateRef
  | Unhandled error

text \<open>
  The private fields of \<^verbatim>\<open>class ThemeStore\<close>.  \<open>store_systemOptions\<close> is the content of
  the \<^verbatim>\<open>#systemOptions\<close> object and \<open>retired\<close> the contents of the overrides objects the
  store had before, oldest first, as they were when the store replaced them.
  \<open>mediaQueryCache\<close> maps a media query to what the change listener registered with it
  captured: the \<^verbatim>\<open>themeKey\<close> and the \<^verbatim>\<open>option.value\<close> of the call that created the entry.
  \<open>aborted\<close> is the state of \<^verbatim>\<open>#abortController.signal\<close>.  \<open>watchers\<close> are the watch
  callbacks \<^verbatim>\<open>sync\<close> has attached and that were not cancelled, in the order of their
  attachment, and \<open>attached\<close> counts the calls of \<^verbatim>\<open>watch\<close>.
\<close>

record ThemeStore =
  key :: string
  config :: KeyedThemeConfig
  storage :: StorageAdapter
  defaultThemes :: Themes
  currentThemes :: Themes
  store_systemOptions :: SystemOptions
  retired :: "SystemOptions list"
  listeners :: "nat list"
  mediaQueryCache :: "(string \<times> string) obj"
  aborted :: bool
  watchers :: "nat list"
  attached :: nat

section \<open>Construction\<close>

text \<open>\<^verbatim>\<open>getThemesAndOptions\<close>\<close>

definition decl_value :: "option_decl \<Rightarrow> string" where
  "decl_value d = (case d of Str v \<Rightarrow> v | Opt x \<Rightarrow> option_value x)"

definition getThemesAndOptions :: "ThemeConfig \<Rightarrow> (string \<times> string list) list" where
  "getThemesAndOptions cfg = map (\<lambda>(themeKey, d). (themeKey, map decl_value (options d))) cfg"

text \<open>\<^verbatim>\<open>getDefaultThemes\<close>: \<^verbatim>\<open>defaultOption ?? (first option's value)\<close>; reading the value
  of \<^verbatim>\<open>options[0]\<close> raises when the option list is empty.\<close>

definition defaultOptionValue :: "theme_decl \<Rightarrow> error + string" where
  "defaultOptionValue d =
     (case defaultOption d of
        Some v \<Rightarrow> Inr v
      | None \<Rightarrow> (case options d of
                   [] \<Rightarrow> Inl (TypeError FirstOption)
                 | x # _ \<Rightarrow> Inr (decl_value x)))"

fun defaultEntries :: "ThemeConfig \<Rightarrow> error + (string \<times> string) list" where
  "defaultEntries [] = Inr []"
| "defaultEntries ((themeKey, d) # rest) =
     (case defaultOptionValue d of
        Inl e \<Rightarrow> Inl e
      | Inr v \<Rightarrow> (case defaultEntries rest of
                    Inl e \<Rightarrow> Inl e
                  | Inr es \<Rightarrow> Inr ((themeKey, v) # es)))"

definition getDefaultThemes :: "ThemeConfig \<Rightarrow> error + Themes" where
  "getDefaultThemes cfg =
     (case defaultEntries cfg of Inl e \<Rightarrow> Inl e | Inr es \<Rightarrow> Inr (fromEntries es))"

text \<open>
  The constructor's loops over \<^verbatim>\<open>Object.entries(config)\<close>, for a configuration given by
  its entries.  The accumulator is the pair of \<^verbatim>\<open>keyedConfig\<close> and \<^verbatim>\<open>systemOptions\<close>.
  When \<^verbatim>\<open>initialState.systemOptions\<close> is given, the local \<^verbatim>\<open>systemOptions\<close> is that very
  object, so the test \<^verbatim>\<open>!initialState.systemOptions?.[themeKey]\<close> reads the accumulator;
  when it is not given the test is always true.  The constructor is modelled for the
  configurations whose dimension names are not names of \<^const>\<open>object_prototype\<close> and
  whose option values are not \<^verbatim>\<open>__proto__\<close>: there its reads find own properties only and
  its assignments define own properties.
\<close>

definition add_option ::
  "bool \<Rightarrow> string \<Rightarrow> option_decl \<Rightarrow> KeyedThemeConfig \<times> SystemOptions
     \<Rightarrow> KeyedThemeConfig \<times> SystemOptions" where
  "add_option given themeKey d acc =
     (case acc of (keyedConfig, sys) \<Rightarrow>
        (let entry = (case obj_get keyedConfig themeKey of None \<Rightarrow> [] | Some e \<Rightarrow> e)
         in case d of
              Str v \<Rightarrow>
                (obj_set keyedConfig themeKey
                   (obj_set entry v \<lparr>option_value = v, option_media = None\<rparr>), sys)
            | Opt x \<Rightarrow>
                (obj_set keyedConfig themeKey (obj_set entry (option_value x) x),
                 (case option_media x of
                    None \<Rightarrow> sys
                  | Some (_, ifMatch, ifNotMatch) \<Rightarrow>
                      if \<not> given \<or> obj_get sys themeKey = None
                      then obj_set sys themeKey (Outcomes ifMatch ifNotMatch)
                      else sys))))"

definition add_theme ::
  "bool \<Rightarrow> string \<times> theme_decl \<Rightarrow> KeyedThemeConfig \<times> SystemOptions
     \<Rightarrow> KeyedThemeConfig \<times> SystemOptions" where
  "add_theme given td acc =
     (case td of (themeKey, d) \<Rightarrow>
        (case acc of (keyedConfig, sys) \<Rightarrow>
           fold (add_option given themeKey) (options d)
             (obj_set keyedConfig themeKey
                (case obj_get keyedConfig themeKey of None \<Rightarrow> [] | Some e \<Rightarrow> e), sys)))"

definition keyConfig ::
  "ThemeConfig \<Rightarrow> SystemOptions option \<Rightarrow> KeyedThemeConfig \<times> SystemOptions" where
  "keyConfig cfg init_sys =
     fold (add_theme (init_sys \<noteq> None)) cfg
       ([], (case init_sys of None \<Rightarrow> [] | Some sys \<Rightarrow> sys))"

record ThemeStoreOptions =
  opt_key :: "string option"
  opt_config :: ThemeConfig
  opt_initialState :: "InitialState option"
  opt_storage :: StorageAdapter

definition new_ThemeStore :: "ThemeStoreOptions \<Rightarrow> error + ThemeStore" where
  "new_ThemeStore opts =
     (let initialState = (case opt_initialState opts of
                            None \<Rightarrow> \<lparr>init_themes = None, init_systemOptions = None\<rparr>
                          | Some i \<Rightarrow> i);
          kc = keyConfig (opt_config opts) (init_systemOptions initialState)
      in case getDefaultThemes (opt_config opts) of
           Inl e \<Rightarrow> Inl e
         | Inr defaults \<Rightarrow>
             Inr \<lparr> key = (case opt_key opts of None \<Rightarrow> PACKAGE_NAME | Some k \<Rightarrow> k),
                   config = fst kc,
                   storage = opt_storage opts,
                   defaultThemes = defaults,
                   currentThemes =
                     spread defaults
                       (case init_themes initialState of None \<Rightarrow> [] | Some t \<Rightarrow> t),
                   store_systemOptions = snd kc,
                   retired = [],
                   listeners = [],
                   mediaQueryCache = [],
                   aborted = False,
                   watchers = [],
                   attached = 0 \<rparr>)"

section \<open>The resolver\<close>

text \<open>
  \<^verbatim>\<open>#resolveThemeOption\<close>.  An option without \<^verbatim>\<open>media\<close> resolves to its value.  Outside
  a client the value is returned with a warning.  Otherwise, unless
  \<^verbatim>\<open>this.#mediaQueryCache[mediaQuery]\<close> finds something, the media query is entered into
  the cache (with a change listener capturing this \<^verbatim>\<open>themeKey\<close> and option); then
  \<^verbatim>\<open>this.#systemOptions[themeKey]\<close> is destructured, which raises unless it is an own
  property, and the \<^verbatim>\<open>matches\<close> flag of \<^verbatim>\<open>this.#mediaQueryCache[mediaQuery]\<close> selects one
  of the two.  The flag is the live one of the media query list for an own property of
  the cache and \<^verbatim>\<open>undefined\<close> for an inherited one.
\<close>

definition resolveThemeOption ::
  "env \<Rightarrow> ThemeStore \<Rightarrow> string \<Rightarrow> ThemeOption
     \<Rightarrow> (error + string option) \<times> ThemeStore \<times> effect list" where
  "resolveThemeOption e s themeKey opt =
     (case option_media opt of
        None \<Rightarrow> (Inr (Some (option_value opt)), s, [])
      | Some (mediaQuery, _, _) \<Rightarrow>
          if \<not> isClient e then (Inr (Some (option_value opt)), s, [Warn])
          else
            (let s1 = (if obj_read (mediaQueryCache s) mediaQuery = Absent
                       then s\<lparr>mediaQueryCache :=
                               obj_set (mediaQueryCache s) mediaQuery (themeKey, option_value opt)\<rparr>
                       else s)
             in case obj_read (store_systemOptions s1) themeKey of
                  Own ov \<Rightarrow>
                    (Inr (if obj_get (mediaQueryCache s1) mediaQuery \<noteq> None \<and> matches e mediaQuery
                          then fst (destructure ov) else snd (destructure ov)), s1, [])
                | _ \<Rightarrow> (Inl (TypeError SystemOption), s1, [])))"

text \<open>
  One step of the \<^verbatim>\<open>map\<close> in \<^verbatim>\<open>#resolveThemes\<close>:
  \<^verbatim>\<open>this.#options.config[themeKey]![optionKey]!\<close> and the call of \<^verbatim>\<open>#resolveThemeOption\<close>.
  Reading \<^verbatim>\<open>[optionKey]\<close> of \<^verbatim>\<open>undefined\<close> raises.  An inherited value in the place of the
  option has neither \<^verbatim>\<open>media\<close> nor \<^verbatim>\<open>value\<close>, so that \<^verbatim>\<open>undefined\<close> is returned as the
  resolved value; reading \<^verbatim>\<open>.media\<close> of \<^verbatim>\<open>undefined\<close> or \<^verbatim>\<open>null\<close> raises.
\<close>

definition resolveEntry ::
  "env \<Rightarrow> ThemeStore \<Rightarrow> string \<Rightarrow> string
     \<Rightarrow> (error + string option) \<times> ThemeStore \<times> effect list" where
  "resolveEntry e s themeKey optionKey =
     (case obj_read (config s) themeKey of
        Absent \<Rightarrow> (Inl (TypeError ConfigTheme), s, [])
      | Inherited \<Rightarrow>
          if builtin_member e themeKey optionKey then (Inr None, s, [])
          else (Inl (TypeError ConfigOption), s, [])
      | Own opts \<Rightarrow>
          (case obj_read opts optionKey of
             Absent \<Rightarrow> (Inl (TypeError ConfigOption), s, [])
           | Inherited \<Rightarrow> (Inr None, s, [])
           | Own opt \<Rightarrow> resolveThemeOption e s themeKey opt))"

text \<open>The \<^verbatim>\<open>map\<close> over \<^verbatim>\<open>Object.entries(this.#currentThemes)\<close> in \<^verbatim>\<open>#resolveThemes\<close>; the
  first entry that raises ends it.\<close>

fun resolveEntries ::
  "env \<Rightarrow> ThemeStore \<Rightarrow> (string \<times> string) list
     \<Rightarrow> (error + (string \<times> string option) list) \<times> ThemeStore \<times> effect list" where
  "resolveEntries e s [] = (Inr [], s, [])"
| "resolveEntries e s ((themeKey, optionKey) # rest) =
     (case resolveEntry e s themeKey optionKey of
        (Inl err, s1, fx1) \<Rightarrow> (Inl err, s1, fx1)
      | (Inr resolved, s1, fx1) \<Rightarrow>
          (case resolveEntries e s1 rest of
             (Inl err, s2, fx2) \<Rightarrow> (Inl err, s2, fx1 @ fx2)
           | (Inr es, s2, fx2) \<Rightarrow> (Inr ((themeKey, resolved) # es), s2, fx1 @ fx2)))"

definition resolveThemes ::
  "env \<Rightarrow> ThemeStore \<Rightarrow> (error + ResolvedThemes) \<times> ThemeStore \<times> effect list" where
  "resolveThemes e s =
     (case resolveEntries e s (currentThemes s) of
        (Inl err, s1, fx) \<Rightarrow> (Inl err, s1, fx)
      | (Inr es, s1, fx) \<Rightarrow> (Inr (fromEntries es), s1, fx))"

section \<open>Store operations\<close>

definition getThemes :: "ThemeStore \<Rightarrow> Themes" where
  "getThemes s = currentThemes s"

definition getResolvedThemes ::
  "env \<Rightarrow> ThemeStore \<Rightarrow> (error + ResolvedThemes) \<times> ThemeStore \<times> effect list" where
  "getResolvedThemes e s = resolveThemes e s"

text \<open>\<^verbatim>\<open>getStateToPersist\<close>: a new object that holds the current selection and the
  \<^verbatim>\<open>#systemOptions\<close> object the store has at the time.\<close>

definition getStateToPersist :: "ThemeStore \<Rightarrow> StateRef" where
  "getStateToPersist s =
     \<lparr>ref_version = 1, ref_themes = currentThemes s, ref_systemOptions = length (retired s)\<rparr>"

text \<open>The content of the store's overrides object number \<open>n\<close>, and what an envelope shows
  to whoever reads it while the store is in the state \<open>s\<close>.\<close>

definition overrides_object :: "ThemeStore \<Rightarrow> nat \<Rightarrow> SystemOptions" where
  "overrides_object s n = (if n < length (retired s) then retired s ! n else store_systemOptions s)"

definition content :: "ThemeStore \<Rightarrow> StateRef \<Rightarrow> PersistedState" where
  "content s r =
     \<lparr>version = ref_version r, themes = ref_themes r,
      systemOptions = overrides_object s (ref_systemOptions r)\<rparr>"

text \<open>\<^verbatim>\<open>#notify\<close>: for each listener in insertion order, resolve afresh and call it.\<close>

fun notify_loop ::
  "env \<Rightarrow> ThemeStore \<Rightarrow> nat list \<Rightarrow> (error + unit) \<times> ThemeStore \<times> effect list" where
  "notify_loop e s [] = (Inr (), s, [])"
| "notify_loop e s (l # ls) =
     (case resolveThemes e s of
        (Inl err, s1, fx1) \<Rightarrow> (Inl err, s1, fx1)
      | (Inr resolved, s1, fx1) \<Rightarrow>
          (case notify_loop e s1 ls of
             (res, s2, fx2) \<Rightarrow> (res, s2, fx1 @ [Notify l (currentThemes s1) resolved] @ fx2)))"

definition notify :: "env \<Rightarrow> ThemeStore \<Rightarrow> (error + unit) \<times> ThemeStore \<times> effect list" where
  "notify e s = notify_loop e s (listeners s)"

definition setThemesAndNotify ::
  "env \<Rightarrow> ThemeStore \<Rightarrow> Themes \<Rightarrow> (error + unit) \<times> ThemeStore \<times> effect list" where
  "setThemesAndNotify e s ts = notify e (s\<lparr>currentThemes := ts\<rparr>)"

text \<open>The argument of \<^verbatim>\<open>setThemes\<close>: a partial selection or an updater function.\<close>

datatype themes_update = Partial Themes | Updater "Themes \<Rightarrow> Themes"

text \<open>
  \<^verbatim>\<open>setThemes\<close> up to its \<^verbatim>\<open>await\<close>: merge, assign and notify, build the envelope and
  call \<^verbatim>\<open>setItem\<close> with it.  The result is the error the promise rejects with when
  the notification raised, and otherwise the envelope handed to \<^verbatim>\<open>setItem\<close>.
\<close>

definition setThemes_begin ::
  "env \<Rightarrow> ThemeStore \<Rightarrow> themes_update
     \<Rightarrow> (error + StateRef) \<times> ThemeStore \<times> effect list" where
  "setThemes_begin e s upd =
     (let updatedThemes = (case upd of Partial t \<Rightarrow> t | Updater f \<Rightarrow> f (currentThemes s))
      in case setThemesAndNotify e s (spread (currentThemes s) updatedThemes) of
           (Inl err, s1, fx) \<Rightarrow> (Inl err, s1, fx)
         | (Inr _, s1, fx) \<Rightarrow>
             (Inr (getStateToPersist s1), s1, fx @ [SetItem (key s1) (getStateToPersist s1)]))"

text \<open>\<^verbatim>\<open>setThemes\<close> after the \<^verbatim>\<open>await\<close>: a rejection of \<^verbatim>\<open>setItem\<close> is the outcome;
  otherwise the same envelope is broadcast when the adapter has \<^verbatim>\<open>broadcast\<close>.\<close>

definition setThemes_end ::
  "ThemeStore \<Rightarrow> StateRef \<Rightarrow> error + unit \<Rightarrow> (error + unit) \<times> effect list" where
  "setThemes_end s stateToPersist outcome =
     (case outcome of
        Inl err \<Rightarrow> (Inl err, [])
      | Inr _ \<Rightarrow> (Inr (), if has_broadcast (storage s) then [Broadcast (key s) stateToPersist] else []))"

text \<open>A call of \<^verbatim>\<open>setThemes\<close> that nothing interleaves with: the backend settles the
  \<^verbatim>\<open>setItem\<close> call by the content of the envelope at the time of the call.\<close>

definition setThemes ::
  "env \<Rightarrow> ThemeStore \<Rightarrow> themes_update \<Rightarrow> (error + unit) \<times> ThemeStore \<times> effect list" where
  "setThemes e s upd =
     (case setThemes_begin e s upd of
        (Inl err, s1, fx) \<Rightarrow> (Inl err, s1, fx)
      | (Inr stateToPersist, s1, fx) \<Rightarrow>
          (case setThemes_end s1 stateToPersist
                  (setItem (storage s1) (key s1) (content s1 stateToPersist)) of
             (res, fx2) \<Rightarrow> (res, s1, fx @ fx2)))"

text \<open>
  \<^verbatim>\<open>updateSystemOption\<close> assigns the pair into the \<^verbatim>\<open>#systemOptions\<close> object and calls
  \<^verbatim>\<open>setThemes\<close> with a copy of the current selection.  It neither returns nor awaits the
  promise: it returns \<^verbatim>\<open>undefined\<close> whatever happens in \<^verbatim>\<open>setThemes\<close>, whose rejection is
  left unhandled.
\<close>

definition updateSystemOption ::
  "env \<Rightarrow> ThemeStore \<Rightarrow> string \<Rightarrow> string \<times> string \<Rightarrow> ThemeStore \<times> effect list" where
  "updateSystemOption e s themeKey outcomes =
     (case setThemes e
             (s\<lparr>store_systemOptions :=
                  obj_set (store_systemOptions s) themeKey (Outcomes (fst outcomes) (snd outcomes))\<rparr>)
             (Partial (spread [] (currentThemes s))) of
        (Inl err, s1, fx) \<Rightarrow> (s1, fx @ [Unhandled err])
      | (Inr _, s1, fx) \<Rightarrow> (s1, fx))"

text \<open>
  The end of \<^verbatim>\<open>restore\<close>: \<^verbatim>\<open>#systemOptions\<close> becomes a new object, the spread of the old
  one and of \<^verbatim>\<open>persistedState.systemOptions\<close>, and the selection the spread of the
  defaults and of \<^verbatim>\<open>persistedState.themes\<close>.  Spreading \<^verbatim>\<open>undefined\<close> adds nothing.
\<close>

definition restore_merge ::
  "env \<Rightarrow> ThemeStore \<Rightarrow> Themes option \<Rightarrow> SystemOptions option
     \<Rightarrow> (error + unit) \<times> ThemeStore \<times> effect list" where
  "restore_merge e s persistedThemes persistedSystemOptions =
     (let s1 = s\<lparr>retired := retired s @ [store_systemOptions s],
                 store_systemOptions :=
                   spread (store_systemOptions s)
                     (case persistedSystemOptions of None \<Rightarrow> [] | Some sys \<Rightarrow> sys)\<rparr>
      in setThemesAndNotify e s1
           (spread (defaultThemes s1) (case persistedThemes of None \<Rightarrow> [] | Some t \<Rightarrow> t)))"

text \<open>
  \<^verbatim>\<open>restore\<close> after \<^verbatim>\<open>await this.#storage.getItem(key)\<close> has settled with \<open>got\<close>.  An
  object without an own property \<^verbatim>\<open>version\<close> is wrapped: it is the selection, and the
  overrides are the store's own.  An object with one is read as an envelope; of a bare
  selection that has a property \<^verbatim>\<open>version\<close> the properties \<^verbatim>\<open>themes\<close> and
  \<^verbatim>\<open>systemOptions\<close> are strings or \<^verbatim>\<open>undefined\<close>.
\<close>

definition restore_end ::
  "env \<Rightarrow> ThemeStore \<Rightarrow> error + persisted \<Rightarrow> (error + unit) \<times> ThemeStore \<times> effect list" where
  "restore_end e s got =
     (case got of
        Inl err \<Rightarrow> (Inl err, s, [])
      | Inr Null \<Rightarrow> setThemesAndNotify e s (spread [] (defaultThemes s))
      | Inr (Legacy bare) \<Rightarrow>
          if obj_get bare ''version'' = None
          then restore_merge e s (Some bare) (Some (store_systemOptions s))
          else restore_merge e s
                 (case obj_get bare ''themes'' of
                    None \<Rightarrow> None
                  | Some v \<Rightarrow> Some (map (\<lambda>(i, c). (i, [c])) (string_entries v)))
                 (case obj_get bare ''systemOptions'' of
                    None \<Rightarrow> None
                  | Some v \<Rightarrow> Some (map (\<lambda>(i, c). (i, Character c)) (string_entries v)))
      | Inr (Envelope st) \<Rightarrow> restore_merge e s (Some (themes st)) (Some (systemOptions st)))"

definition restore :: "env \<Rightarrow> ThemeStore \<Rightarrow> (error + unit) \<times> ThemeStore \<times> effect list" where
  "restore e s =
     (case restore_end e s (getItem (storage s) (key s)) of
        (res, s1, fx) \<Rightarrow> (res, s1, GetItem (key s) # fx))"

text \<open>\<^verbatim>\<open>Set.prototype.add\<close> and \<^verbatim>\<open>delete\<close> on the listener set.\<close>

definition set_add :: "nat list \<Rightarrow> nat \<Rightarrow> nat list" where
  "set_add ls l = (if l \<in> set ls then ls else ls @ [l])"

text \<open>\<^verbatim>\<open>subscribe\<close>; the function it returns is \<open>unsubscribe\<close>.  Neither looks at the abort
  signal.\<close>

definition subscribe ::
  "env \<Rightarrow> ThemeStore \<Rightarrow> nat \<Rightarrow> bool \<Rightarrow> (error + unit) \<times> ThemeStore \<times> effect list" where
  "subscribe e s l immediate =
     (if immediate then
        (case resolveThemes e s of
           (Inl err, s1, fx) \<Rightarrow> (Inl err, s1, fx)
         | (Inr resolved, s1, fx) \<Rightarrow>
             (Inr (), s1\<lparr>listeners := set_add (listeners s1) l\<rparr>,
              fx @ [Notify l (currentThemes s1) resolved]))
      else (Inr (), s\<lparr>listeners := set_add (listeners s) l\<rparr>, []))"

definition unsubscribe :: "ThemeStore \<Rightarrow> nat \<Rightarrow> ThemeStore" where
  "unsubscribe s l = s\<lparr>listeners := removeAll l (listeners s)\<rparr>"

text \<open>
  \<^verbatim>\<open>sync\<close>: without \<^verbatim>\<open>watch\<close> it warns and returns \<^verbatim>\<open>undefined\<close>; with it, every call
  hands a new callback to \<^verbatim>\<open>watch\<close> and returns what \<^verbatim>\<open>watch\<close> returns, the function that
  cancels this callback (\<open>cancel_sync\<close> with the number returned here).
\<close>

definition sync :: "ThemeStore \<Rightarrow> nat option \<times> ThemeStore \<times> effect list" where
  "sync s =
     (if \<not> has_watch (storage s) then (None, s, [Warn])
      else (Some (attached s),
            s\<lparr>watchers := watchers s @ [attached s], attached := Suc (attached s)\<rparr>, []))"

definition cancel_sync :: "ThemeStore \<Rightarrow> nat \<Rightarrow> ThemeStore" where
  "cancel_sync s w = s\<lparr>watchers := removeAll w (watchers s)\<rparr>"

text \<open>The callback \<^verbatim>\<open>sync\<close> hands to \<^verbatim>\<open>watch\<close>, on a payload of its declared type
  \<^verbatim>\<open>PersistedState\<close>; the event's key may be \<^verbatim>\<open>null\<close>.  The store takes up the payload's
  \<^verbatim>\<open>systemOptions\<close> object as its own.\<close>

definition sync_handler ::
  "env \<Rightarrow> ThemeStore \<Rightarrow> string option \<Rightarrow> PersistedState
     \<Rightarrow> (error + unit) \<times> ThemeStore \<times> effect list" where
  "sync_handler e s k persistedState =
     (if k \<noteq> Some (key s) then (Inr (), s, [])
      else setThemesAndNotify e
             (s\<lparr>retired := retired s @ [store_systemOptions s],
                store_systemOptions := systemOptions persistedState\<rparr>)
             (themes persistedState))"

text \<open>
  An external storage event, as the built-in adapters deliver it: to every callback
  attached and not cancelled, in the order of attachment, unless the store's abort
  signal has fired.  What a callback raises does not keep the event from the next one;
  the outcomes are listed in order.
\<close>

fun watch_loop ::
  "env \<Rightarrow> ThemeStore \<Rightarrow> string option \<Rightarrow> PersistedState \<Rightarrow> nat list
     \<Rightarrow> (error + unit) list \<times> ThemeStore \<times> effect list" where
  "watch_loop e s k persistedState [] = ([], s, [])"
| "watch_loop e s k persistedState (w # ws) =
     (case sync_handler e s k persistedState of
        (res, s1, fx1) \<Rightarrow>
          (case watch_loop e s1 k persistedState ws of
             (rs, s2, fx2) \<Rightarrow> (res # rs, s2, fx1 @ fx2)))"

definition watch_event ::
  "env \<Rightarrow> ThemeStore \<Rightarrow> string option \<Rightarrow> PersistedState
     \<Rightarrow> (error + unit) list \<times> ThemeStore \<times> effect list" where
  "watch_event e s k persistedState =
     (if aborted s then ([], s, []) else watch_loop e s k persistedState (watchers s))"

text \<open>
  A \<^verbatim>\<open>change\<close> event of the media query list for \<open>mediaQuery\<close>, in the environment \<open>e\<close>
  after the change.  The listener exists when the query is in the cache and the abort
  signal had not fired when it was entered, and is removed by the abort signal; it
  compares the selection of the \<^verbatim>\<open>themeKey\<close> it captured with the option value it
  captured.
\<close>

definition media_change ::
  "env \<Rightarrow> ThemeStore \<Rightarrow> string \<Rightarrow> (error + unit) \<times> ThemeStore \<times> effect list" where
  "media_change e s mediaQuery =
     (if aborted s then (Inr (), s, [])
      else case obj_get (mediaQueryCache s) mediaQuery of
             None \<Rightarrow> (Inr (), s, [])
           | Some (themeKey, optionValue) \<Rightarrow>
               if obj_get (currentThemes s) themeKey = Some optionValue
               then setThemesAndNotify e s (spread [] (currentThemes s))
               else (Inr (), s, []))"

definition flip :: "env \<Rightarrow> string \<Rightarrow> env" where
  "flip e mediaQuery = e\<lparr>matches := (matches e)(mediaQuery := \<not> matches e mediaQuery)\<rparr>"

text \<open>\<^verbatim>\<open>ThemeStore._destroy\<close>\<close>

definition store_destroy :: "ThemeStore \<Rightarrow> ThemeStore" where
  "store_destroy s = s\<lparr>listeners := [], aborted := True\<rparr>"

section \<open>The registry\<close>

text \<open>
  Stores are objects with identity: the registry's map and the callers of \<^verbatim>\<open>create\<close>
  hold references to them.  A reference is an index into the list of all stores ever
  constructed; \<open>registry\<close> is the \<^verbatim>\<open>Map\<close> from store key to reference.
\<close>

record world =
  stores :: "ThemeStore list"
  registry :: "(string \<times> nat) list"

text \<open>\<^verbatim>\<open>key || PACKAGE_NAME\<close>: an omitted or empty key means the package name.\<close>

definition storeKey :: "string option \<Rightarrow> string" where
  "storeKey k = (case k of None \<Rightarrow> PACKAGE_NAME | Some n \<Rightarrow> if n = [] then PACKAGE_NAME else n)"

definition registry_destroy :: "world \<Rightarrow> string option \<Rightarrow> (error + unit) \<times> world" where
  "registry_destroy w k =
     (case map_of (registry w) (storeKey k) of
        None \<Rightarrow> (Inl (NotFound (storeKey k)), w)
      | Some r \<Rightarrow>
          (Inr (), w\<lparr>stores := (stores w)[r := store_destroy (stores w ! r)],
                     registry := AList.delete (storeKey k) (registry w)\<rparr>))"

definition registry_get :: "world \<Rightarrow> string option \<Rightarrow> error + nat" where
  "registry_get w k =
     (case map_of (registry w) (storeKey k) of
        None \<Rightarrow> Inl (NotFound (storeKey k))
      | Some r \<Rightarrow> Inr r)"

definition registry_create :: "world \<Rightarrow> ThemeStoreOptions \<Rightarrow> (error + nat) \<times> world" where
  "registry_create w opts =
     (let k = storeKey (opt_key opts);
          w1 = (if map_of (registry w) k \<noteq> None then snd (registry_destroy w (Some k)) else w)
      in case new_ThemeStore opts of
           Inl err \<Rightarrow> (Inl err, w1)
         | Inr themeStore \<Rightarrow>
             (Inr (length (stores w1)),
              w1\<lparr>stores := stores w1 @ [themeStore],
                  registry := AList.update k (length (stores w1)) (registry w1)\<rparr>))"

section \<open>Observations and invariants\<close>

text \<open>The notifications, the \<^verbatim>\<open>setItem\<close> calls and the \<^verbatim>\<open>broadcast\<close> calls of a trace
  of effects, in order.\<close>

fun notifications :: "effect list \<Rightarrow> (nat \<times> Themes \<times> ResolvedThemes) list" where
  "notifications [] = []"
| "notifications (Notify l t r # fx) = (l, t, r) # notifications fx"
| "notifications (_ # fx) = notifications fx"

fun persist_calls :: "effect list \<Rightarrow> (string \<times> StateRef) list" where
  "persist_calls [] = []"
| "persist_calls (SetItem k v # fx) = (k, v) # persist_calls fx"
| "persist_calls (_ # fx) = persist_calls fx"

fun broadcasts :: "effect list \<Rightarrow> (string \<times> StateRef) list" where
  "broadcasts [] = []"
| "broadcasts (Broadcast k v # fx) = (k, v) # broadcasts fx"
| "broadcasts (_ # fx) = broadcasts fx"

text \<open>The partial selection a \<^verbatim>\<open>setThemes\<close> argument stands for: itself, or the
  updater function applied to the current selection.\<close>

definition updated_by :: "themes_update \<Rightarrow> Themes \<Rightarrow> Themes" where
  "updated_by upd cur = (case upd of Partial t \<Rightarrow> t | Updater f \<Rightarrow> f cur)"

text \<open>Two store states that differ at most in the media query cache, and there not in
  whether a name of \<^const>\<open>object_prototype\<close> is an own property.\<close>

definition same_but_cache :: "ThemeStore \<Rightarrow> ThemeStore \<Rightarrow> bool" where
  "same_but_cache s t \<longleftrightarrow>
     t = s\<lparr>mediaQueryCache := mediaQueryCache t\<rparr>
     \<and> list_all (\<lambda>q. (obj_get (mediaQueryCache t) q = None) = (obj_get (mediaQueryCache s) q = None))
          object_prototype"

text \<open>\<^verbatim>\<open>config[themeKey]?.[optionKey]\<close>\<close>

definition lookup_option :: "KeyedThemeConfig \<Rightarrow> string \<Rightarrow> string \<Rightarrow> ThemeOption option" where
  "lookup_option cfg themeKey optionKey =
     (case obj_get cfg themeKey of None \<Rightarrow> None | Some opts \<Rightarrow> obj_get opts optionKey)"

text \<open>Every option of the keyed configuration is stored under its own value.\<close>

definition config_keyed :: "KeyedThemeConfig \<Rightarrow> bool" where
  "config_keyed cfg =
     list_all (\<lambda>(themeKey, opts). list_all (\<lambda>(optionKey, opt). option_value opt = optionKey) opts) cfg"

text \<open>The same for the options of one dimension.\<close>

definition entry_keyed :: "ThemeOption obj \<Rightarrow> bool" where
  "entry_keyed opts = list_all (\<lambda>(optionKey, opt). option_value opt = optionKey) opts"

text \<open>A selection stays within the configuration: each of its dimensions is configured
  and each selected value is an option of its dimension.\<close>

definition in_config :: "KeyedThemeConfig \<Rightarrow> Themes \<Rightarrow> bool" where
  "in_config cfg sel =
     list_all (\<lambda>(themeKey, optionKey). lookup_option cfg themeKey optionKey \<noteq> None) sel"

text \<open>Each selected option that has a media triple has an override pair for its
  dimension.\<close>

definition overridden :: "KeyedThemeConfig \<Rightarrow> SystemOptions \<Rightarrow> Themes \<Rightarrow> bool" where
  "overridden cfg sys sel =
     list_all (\<lambda>(themeKey, optionKey).
        case lookup_option cfg themeKey optionKey of
          None \<Rightarrow> True
        | Some opt \<Rightarrow> option_media opt = None \<or> obj_get sys themeKey \<noteq> None) sel"

text \<open>After the constructor's loops every media option of the keyed configuration has
  an override pair for its dimension.\<close>

definition overrides_cover :: "KeyedThemeConfig \<Rightarrow> SystemOptions \<Rightarrow> bool" where
  "overrides_cover cfg sys =
     list_all (\<lambda>(themeKey, opts).
        list_all (\<lambda>(optionKey, opt). option_media opt = None \<or> obj_get sys themeKey \<noteq> None) opts)
       cfg"

text \<open>What the accumulator of the constructor's loops satisfies at every step.\<close>

definition keyed_inv :: "KeyedThemeConfig \<times> SystemOptions \<Rightarrow> bool" where
  "keyed_inv acc \<longleftrightarrow> config_keyed (fst acc) \<and> is_obj (snd acc) \<and> overrides_cover (fst acc) (snd acc)"

text \<open>The well-formedness of a store: its selection, defaults and overrides are
  objects and its configuration is keyed by option value.\<close>

definition wf_store :: "ThemeStore \<Rightarrow> bool" where
  "wf_store s \<longleftrightarrow>
     is_obj (currentThemes s) \<and> is_obj (defaultThemes s) \<and> is_obj (store_systemOptions s)
     \<and> config_keyed (config s)"

text \<open>A store is live until its abort signal has fired.  In a consistent world the
  registry is a map whose references are distinct and point at stores, and every live
  store is the registered store of some key.\<close>

definition registry_ok :: "world \<Rightarrow> bool" where
  "registry_ok w \<longleftrightarrow>
     distinct (map fst (registry w)) \<and> distinct (map snd (registry w))
     \<and> list_all (\<lambda>(k, r). r < length (stores w)) (registry w)
     \<and> list_all (\<lambda>r. aborted (stores w ! r) \<or> r \<in> snd ` set (registry w))
          [0..<length (stores w)]"
text \<open>Resolution of the store's selection returns a resolved view.\<close>

definition resolvable :: "env \<Rightarrow> ThemeStore \<Rightarrow> bool" where
  "resolvable e s = (case fst (resolveThemes e s) of Inl _ \<Rightarrow> False | Inr _ \<Rightarrow> True)"

text \<open>The results of a list of steps taken together: the first error, or all values.\<close>

fun gather :: "(string \<times> (error + 'a)) list \<Rightarrow> error + (string \<times> 'a) list" where
  "gather [] = Inr []"
| "gather ((k, Inl err) # rest) = Inl err"
| "gather ((k, Inr x) # rest) =
     (case gather rest of Inl err \<Rightarrow> Inl err | Inr xs \<Rightarrow> Inr ((k, x) # xs))"

text \<open>
  The configuration lookup \<^verbatim>\<open>config[themeKey]![optionKey]!\<close> of an entry of a selection
  gives something of which \<^verbatim>\<open>.media\<close> can be read: a configured option, or a value found
  under a name inherited from \<^verbatim>\<open>Object.prototype\<close>.
\<close>

definition entry_readable :: "env \<Rightarrow> KeyedThemeConfig \<Rightarrow> string \<times> string \<Rightarrow> bool" where
  "entry_readable e cfg entry =
     (case obj_read cfg (fst entry) of
        Absent \<Rightarrow> False
      | Inherited \<Rightarrow> builtin_member e (fst entry) (snd entry)
      | Own opts \<Rightarrow> obj_read opts (snd entry) \<noteq> Absent)"

section \<open>Concrete stores\<close>

text \<open>The configuration of the demo pages, shortened: a colour scheme with a
  system option and a contrast dimension.\<close>

definition dark_query :: string where
  "dark_query = ''(prefers-color-scheme: dark)''"

definition system_option :: ThemeOption where
  "system_option = \<lparr>option_value = ''system'', option_media = Some (dark_query, ''dark'', ''light'')\<rparr>"

definition demo_config :: ThemeConfig where
  "demo_config =
     [(''colorScheme'',
         \<lparr>options = [Opt system_option, Str ''light'', Str ''dark''], defaultOption = None\<rparr>),
      (''contrast'', \<lparr>options = [Str ''standard'', Str ''high''], defaultOption = None\<rparr>)]"

definition demo_storage :: StorageAdapter where
  "demo_storage =
     \<lparr>getItem = (\<lambda>_. Inr Null), setItem = (\<lambda>_ _. Inr ()),
      has_broadcast = False, has_watch = True\<rparr>"

text \<open>A backend whose \<^verbatim>\<open>setItem\<close> rejects.\<close>

definition failing_storage :: StorageAdapter where
  "failing_storage =
     \<lparr>getItem = (\<lambda>_. Inr Null), setItem = (\<lambda>_ _. Inl (Rejected ''quota'')),
      has_broadcast = True, has_watch = True\<rparr>"

definition demo_options :: ThemeStoreOptions where
  "demo_options =
     \<lparr>opt_key = None, opt_config = demo_config, opt_initialState = None,
      opt_storage = demo_storage\<rparr>"

definition demo_keyed :: KeyedThemeConfig where
  "demo_keyed =
     [(''colorScheme'',
         [(''system'', system_option),
          (''light'', \<lparr>option_value = ''light'', option_media = None\<rparr>),
          (''dark'', \<lparr>option_value = ''dark'', option_media = None\<rparr>)]),
      (''contrast'',
         [(''standard'', \<lparr>option_value = ''standard'', option_media = None\<rparr>),
          (''high'', \<lparr>option_value = ''high'', option_media = None\<rparr>)])]"

definition demo_store :: ThemeStore where
  "demo_store =
     \<lparr>key = ''palettez'', config = demo_keyed, storage = demo_storage,
      defaultThemes = [(''colorScheme'', ''system''), (''contrast'', ''standard'')],
      currentThemes = [(''colorScheme'', ''system''), (''contrast'', ''standard'')],
      store_systemOptions = [(''colorScheme'', Outcomes ''dark'' ''light'')], retired = [],
      listeners = [], mediaQueryCache = [], aborted = False, watchers = [], attached = 0\<rparr>"

text \<open>The same store with two subscribers.\<close>

definition observed_store :: ThemeStore where
  "observed_store = demo_store\<lparr>listeners := [1, 2]\<rparr>"


text \<open>The subscribed store on the rejecting backend.\<close>

definition failing_store :: ThemeStore where
  "failing_store = observed_store\<lparr>storage := failing_storage\<rparr>"

text \<open>
  The built-in objects of a current engine.  What a plain object inherits is a function,
  except that \<^verbatim>\<open>__proto__\<close> gives \<^verbatim>\<open>Object.prototype\<close> itself, whose own \<^verbatim>\<open>__proto__\<close> is
  \<^verbatim>\<open>null\<close>.  A function has \<^verbatim>\<open>length\<close> and \<^verbatim>\<open>name\<close> and inherits from
  \<^verbatim>\<open>Function.prototype\<close> and \<^verbatim>\<open>Object.prototype\<close>; reading its \<^verbatim>\<open>arguments\<close> or \<^verbatim>\<open>caller\<close>
  raises.  \<^verbatim>\<open>constructor\<close> is the function \<^verbatim>\<open>Object\<close> with its static methods.
\<close>

definition function_members :: "string list" where
  "function_members = [''length'', ''name'', ''apply'', ''bind'', ''call''] @ object_prototype"

definition object_statics :: "string list" where
  "object_statics =
     [''prototype'', ''assign'', ''create'', ''defineProperties'', ''defineProperty'',
      ''entries'', ''freeze'', ''fromEntries'', ''getOwnPropertyDescriptor'',
      ''getOwnPropertyDescriptors'', ''getOwnPropertyNames'', ''getOwnPropertySymbols'',
      ''getPrototypeOf'', ''groupBy'', ''hasOwn'', ''is'', ''isExtensible'', ''isFrozen'',
      ''isSealed'', ''keys'', ''preventExtensions'', ''seal'', ''setPrototypeOf'', ''values'']"

definition standard_member :: "string \<Rightarrow> string \<Rightarrow> bool" where
  "standard_member n k =
     (if n = ''__proto__'' then k \<in> set object_prototype \<and> k \<noteq> ''__proto__''
      else if n = ''constructor'' then k \<in> set (object_statics @ function_members)
      else k \<in> set function_members)"

text \<open>Three environments: a client where no query matches, a client where the dark
  query matches, and a server.\<close>

definition light_env :: env where
  "light_env = \<lparr>isClient = True, matches = (\<lambda>_. False), builtin_member = standard_member\<rparr>"

definition dark_env :: env where
  "dark_env =
     \<lparr>isClient = True, matches = (\<lambda>q. q = dark_query), builtin_member = standard_member\<rparr>"

definition server_env :: env where
  "server_env = \<lparr>isClient = False, matches = (\<lambda>_. False), builtin_member = standard_member\<rparr>"

text \<open>Two versioned payloads of another context: one without override pairs, one
  with a selection and an override pair of its own.\<close>

definition stale_payload :: PersistedState where
  "stale_payload =
     \<lparr>version = 1, themes = [(''colorScheme'', ''system''), (''contrast'', ''standard'')],
      systemOptions = []\<rparr>"

definition full_payload :: PersistedState where
  "full_payload =
     \<lparr>version = 1, themes = [(''colorScheme'', ''dark''), (''contrast'', ''high'')],
      systemOptions = [(''colorScheme'', Outcomes ''dark-modern'' ''light-modern'')]\<rparr>"

text \<open>A versioned payload whose selection lacks the contrast dimension.\<close>

definition partial_payload :: PersistedState where
  "partial_payload =
     \<lparr>version = 1, themes = [(''colorScheme'', ''dark'')],
      systemOptions = [(''colorScheme'', Outcomes ''dark'' ''light'')]\<rparr>"

text \<open>The demo store after \<^verbatim>\<open>sync()\<close> and a watch event for its key carrying
  \<open>stale_payload\<close>.\<close>

definition synced_store :: ThemeStore where
  "synced_store =
     fst (snd (watch_event light_env (fst (snd (sync demo_store))) (Some ''palettez'')
                 stale_payload))"

text \<open>The subscribed demo store after \<^verbatim>\<open>sync()\<close>.\<close>

definition watched_store :: ThemeStore where
  "watched_store = fst (snd (sync observed_store))"

text \<open>The subscribed demo store after two calls of \<^verbatim>\<open>sync()\<close>.\<close>

definition twice_watched_store :: ThemeStore where
  "twice_watched_store = fst (snd (sync watched_store))"

text \<open>A backend that holds a legacy payload.\<close>

definition legacy_storage :: "Themes \<Rightarrow> StorageAdapter" where
  "legacy_storage bare = demo_storage\<lparr>getItem := (\<lambda>_. Inr (Legacy bare))\<rparr>"

text \<open>Two subscribed stores whose backends hold a legacy payload: one within the
  configuration, one naming a dimension that is no longer configured.\<close>

definition legacy_store :: ThemeStore where
  "legacy_store = observed_store\<lparr>storage := legacy_storage [(''colorScheme'', ''dark'')]\<rparr>"

definition stale_legacy_store :: ThemeStore where
  "stale_legacy_store =
     observed_store\<lparr>storage :=
       legacy_storage [(''colorScheme'', ''dark''), (''density'', ''compact'')]\<rparr>"

text \<open>Two dimensions whose system options share one media query.\<close>

definition shared_config :: ThemeConfig where
  "shared_config =
     [(''colorScheme'',
         \<lparr>options = [Opt system_option, Str ''light'', Str ''dark''], defaultOption = None\<rparr>),
      (''syntax'',
         \<lparr>options = [Opt system_option, Str ''light'', Str ''dark''], defaultOption = None\<rparr>)]"

definition shared_options :: ThemeStoreOptions where
  "shared_options =
     \<lparr>opt_key = None, opt_config = shared_config, opt_initialState = None,
      opt_storage = demo_storage\<rparr>"

definition shared_store :: ThemeStore where
  "shared_store =
     \<lparr>key = ''palettez'',
      config =
        [(''colorScheme'',
            [(''system'', system_option),
             (''light'', \<lparr>option_value = ''light'', option_media = None\<rparr>),
             (''dark'', \<lparr>option_value = ''dark'', option_media = None\<rparr>)]),
         (''syntax'',
            [(''system'', system_option),
             (''light'', \<lparr>option_value = ''light'', option_media = None\<rparr>),
             (''dark'', \<lparr>option_value = ''dark'', option_media = None\<rparr>)])],
      storage = demo_storage,
      defaultThemes = [(''colorScheme'', ''system''), (''syntax'', ''system'')],
      currentThemes = [(''colorScheme'', ''system''), (''syntax'', ''system'')],
      store_systemOptions =
        [(''colorScheme'', Outcomes ''dark'' ''light''), (''syntax'', Outcomes ''dark'' ''light'')],
      retired = [],
      listeners = [], mediaQueryCache = [], aborted = False, watchers = [], attached = 0\<rparr>"

text \<open>The store after a listener subscribed with \<^verbatim>\<open>immediate\<close> and the colour scheme
  was set to light; the syntax dimension still selects its system option.\<close>

definition shared_light_store :: ThemeStore where
  "shared_light_store =
     fst (snd (setThemes light_env (fst (snd (subscribe light_env shared_store 1 True)))
                 (Partial [(''colorScheme'', ''light'')])))"

text \<open>The registry before any store was created.\<close>

definition empty_world :: world where
  "empty_world = \<lparr>stores = [], registry = []\<rparr>"

text \<open>The world after \<^verbatim>\<open>createThemeStore\<close> with the demo options.\<close>

definition demo_world :: world where
  "demo_world = snd (registry_create empty_world demo_options)"


section \<open>Properties\<close>

subsection \<open>Objects\<close>

lemma map_of_insert_index:
  "k \<notin> fst ` set ob \<Longrightarrow> map_of (insert_index i k v ob) = (map_of ob)(k \<mapsto> v)"
proof (induction ob)
  case Nil
  then show ?case by simp
next
  case (Cons p ob)
  obtain k' v' where p: "p = (k', v')" by (cases p)
  with Cons.prems have ne: "k' \<noteq> k" and fresh: "k \<notin> fst ` set ob" by auto
  show ?case using Cons.IH [OF fresh] ne p
    by (auto split: option.splits simp: fun_upd_twist)
qed

lemma set_insert_index: "set (insert_index i k v ob) = insert (k, v) (set ob)"
  by (induction ob) (auto split: option.splits)

lemma distinct_insert_index:
  "k \<notin> fst ` set ob \<Longrightarrow> distinct (map fst (insert_index i k v ob)) = distinct (map fst ob)"
proof (induction ob)
  case Nil
  then show ?case by simp
next
  case (Cons p ob)
  then have fresh: "k \<notin> fst ` set ob" and ne: "fst p \<noteq> k" by auto
  have keys: "fst ` set (insert_index i k v ob) = insert k (fst ` set ob)"
    by (simp add: set_insert_index)
  show ?case using Cons.IH [OF fresh] ne fresh keys
    by (auto split: option.splits)
qed

lemma map_of_append_fresh:
  "k \<notin> fst ` set ob \<Longrightarrow> map_of (ob @ [(k, v)]) = (map_of ob)(k \<mapsto> v)"
  by (induction ob) (auto simp: fun_upd_twist)

lemma obj_get_set: "obj_get (obj_set ob k v) k' = (if k' = k then Some v else obj_get ob k')"
proof (cases "k \<in> fst ` set ob")
  case True
  then show ?thesis by (simp add: obj_get_def obj_set_def update_conv')
next
  case False
  then have "map_of (obj_set ob k v) = (map_of ob)(k \<mapsto> v)"
    by (cases "array_index k")
       (simp_all add: obj_set_def map_of_insert_index map_of_append_fresh del: map_of_append)
  then show ?thesis by (simp add: obj_get_def)
qed

lemma is_obj_set: "is_obj (obj_set ob k v) = is_obj ob"
  by (auto simp: is_obj_def obj_set_def update_keys distinct_insert_index split: option.splits)

lemma keys_obj_set: "fst ` set (obj_set ob k v) = insert k (fst ` set ob)"
  by (auto simp: obj_set_def dom_update set_insert_index split: option.splits)

lemma set_update_subset: "p \<in> set (AList.update k v ob) \<Longrightarrow> p = (k, v) \<or> p \<in> set ob"
  by (induction ob) (auto split: if_splits)

lemma set_obj_set: "p \<in> set (obj_set ob k v) \<Longrightarrow> p = (k, v) \<or> p \<in> set ob"
  unfolding obj_set_def
  by (auto simp: set_insert_index dest: set_update_subset split: option.splits if_splits)

lemma spread_Nil [simp]: "spread a [] = a"
  by (simp add: spread_def)

lemma spread_Cons: "spread a ((k, v) # b) = spread (obj_set a k v) b"
  by (simp add: spread_def)

lemma is_obj_spread: "is_obj a \<Longrightarrow> is_obj (spread a b)"
  by (induction b arbitrary: a) (auto simp: spread_Cons is_obj_set)

lemma keys_spread: "fst ` set (spread a b) = fst ` set a \<union> fst ` set b"
proof (induction b arbitrary: a)
  case Nil
  then show ?case by simp
next
  case (Cons p b)
  obtain k v where p: "p = (k, v)" by (cases p)
  have "fst ` set (spread (obj_set a k v) b) = insert k (fst ` set a) \<union> fst ` set b"
    by (simp only: Cons.IH keys_obj_set)
  then show ?case using p by (simp add: spread_Cons)
qed

lemma set_spread: "p \<in> set (spread a b) \<Longrightarrow> p \<in> set a \<or> p \<in> set b"
proof (induction b arbitrary: a)
  case Nil
  then show ?case by simp
next
  case (Cons q b)
  obtain k v where q: "q = (k, v)" by (cases q)
  from Cons.prems q have "p \<in> set (spread (obj_set a k v) b)" by (simp add: spread_Cons)
  from Cons.IH [OF this] show ?case using q by (auto dest: set_obj_set)
qed

lemma obj_get_spread_other: "k \<notin> fst ` set b \<Longrightarrow> obj_get (spread a b) k = obj_get a k"
  by (induction b arbitrary: a) (auto simp: spread_Cons obj_get_set)

lemma obj_get_spread_in:
  "is_obj b \<Longrightarrow> obj_get b k = Some v \<Longrightarrow> obj_get (spread a b) k = Some v"
proof (induction b arbitrary: a)
  case Nil
  then show ?case by (simp add: obj_get_def)
next
  case (Cons p b)
  obtain k' v' where p: "p = (k', v')" by (cases p)
  show ?case
  proof (cases "k' = k")
    case True
    with Cons.prems p have "v' = v" "k \<notin> fst ` set b"
      by (auto simp: obj_get_def is_obj_def)
    then show ?thesis using p True
      by (simp add: spread_Cons obj_get_spread_other obj_get_set)
  next
    case False
    with Cons.prems p have "is_obj b" "obj_get b k = Some v"
      by (auto simp: obj_get_def is_obj_def)
    then show ?thesis using p Cons.IH by (simp add: spread_Cons)
  qed
qed

lemma obj_set_same: "obj_get a k = Some v \<Longrightarrow> obj_set a k v = a"
proof -
  assume get: "obj_get a k = Some v"
  then have "k \<in> fst ` set a" by (auto simp: obj_get_def dest: map_of_SomeD intro: rev_image_eqI)
  with get show ?thesis by (simp add: obj_set_def obj_get_def update_triv)
qed

lemma spread_absorb:
  "\<forall>(k, v) \<in> set b. obj_get a k = Some v \<Longrightarrow> spread a b = a"
proof (induction b)
  case Nil
  then show ?case by simp
next
  case (Cons p b)
  obtain k v where p: "p = (k, v)" by (cases p)
  with Cons.prems have "obj_set a k v = a"
    by (simp add: obj_set_same)
  with Cons p show ?case by (simp add: spread_Cons)
qed

lemma spread_self: "is_obj a \<Longrightarrow> spread a a = a"
  by (rule spread_absorb) (auto simp: obj_get_def is_obj_def)

lemma obj_get_member: "is_obj a \<Longrightarrow> (k, v) \<in> set a \<Longrightarrow> obj_get a k = Some v"
  by (simp add: obj_get_def is_obj_def)

lemma spread_copy: "is_obj a \<Longrightarrow> spread a (spread [] a) = a"
proof (rule spread_absorb, clarify)
  fix k v
  assume "is_obj a" "(k, v) \<in> set (spread [] a)"
  then show "obj_get a k = Some v"
    using set_spread [of "(k, v)" "[]" a] by (auto simp: obj_get_member)
qed

lemma obj_set_fresh:
  "k \<notin> fst ` set a \<Longrightarrow> array_index k = None \<Longrightarrow> obj_set a k v = a @ [(k, v)]"
  by (simp add: obj_set_def)

lemma obj_read_Own: "obj_read ob k = Own v \<longleftrightarrow> obj_get ob k = Some v"
  by (auto simp: obj_read_def split: option.splits)

lemma obj_read_set:
  "obj_read (obj_set ob k v) k' = (if k' = k then Own v else obj_read ob k')"
  by (simp add: obj_read_def obj_get_set)

subsection \<open>Resolution and notification touch the media query cache only\<close>

lemma same_but_cache_refl [simp]: "same_but_cache s s"
  unfolding same_but_cache_def by (simp add: list_all_iff)

lemma same_but_cache_upd:
  "q \<notin> set object_prototype \<Longrightarrow>
     same_but_cache s (s\<lparr>mediaQueryCache := obj_set (mediaQueryCache s) q v\<rparr>)"
  unfolding same_but_cache_def by (auto simp: list_all_iff obj_get_set)

lemma same_but_cache_fields:
  assumes "same_but_cache s t"
  shows "key t = key s" "config t = config s" "storage t = storage s"
    "defaultThemes t = defaultThemes s" "currentThemes t = currentThemes s"
    "store_systemOptions t = store_systemOptions s" "listeners t = listeners s"
    "aborted t = aborted s" "watchers t = watchers s" "retired t = retired s"
    "attached t = attached s"
proof -
  from assms have eq: "t = s\<lparr>mediaQueryCache := mediaQueryCache t\<rparr>"
    unfolding same_but_cache_def by (rule conjunct1)
  show "key t = key s" using arg_cong [OF eq, of key] by simp
  show "config t = config s" using arg_cong [OF eq, of config] by simp
  show "storage t = storage s" using arg_cong [OF eq, of storage] by simp
  show "defaultThemes t = defaultThemes s" using arg_cong [OF eq, of defaultThemes] by simp
  show "currentThemes t = currentThemes s" using arg_cong [OF eq, of currentThemes] by simp
  show "store_systemOptions t = store_systemOptions s"
    using arg_cong [OF eq, of store_systemOptions] by simp
  show "listeners t = listeners s" using arg_cong [OF eq, of listeners] by simp
  show "aborted t = aborted s" using arg_cong [OF eq, of aborted] by simp
  show "watchers t = watchers s" using arg_cong [OF eq, of watchers] by simp
  show "retired t = retired s" using arg_cong [OF eq, of retired] by simp
  show "attached t = attached s" using arg_cong [OF eq, of attached] by simp
qed

lemma same_but_cache_iff:
  "same_but_cache s t \<longleftrightarrow>
     key t = key s \<and> config t = config s \<and> storage t = storage s
     \<and> defaultThemes t = defaultThemes s \<and> currentThemes t = currentThemes s
     \<and> store_systemOptions t = store_systemOptions s \<and> retired t = retired s
     \<and> listeners t = listeners s \<and> aborted t = aborted s \<and> watchers t = watchers s
     \<and> attached t = attached s \<and> ThemeStore.more t = ThemeStore.more s
     \<and> (\<forall>q \<in> set object_prototype.
           (obj_get (mediaQueryCache t) q = None) = (obj_get (mediaQueryCache s) q = None))"
  unfolding same_but_cache_def list_all_iff by (cases s, cases t) auto

lemma same_but_cache_trans: "same_but_cache s t \<Longrightarrow> same_but_cache t u \<Longrightarrow> same_but_cache s u"
  by (simp add: same_but_cache_iff)

lemma same_but_cache_sym: "same_but_cache s t \<Longrightarrow> same_but_cache t s"
  by (simp add: same_but_cache_iff)

lemma same_but_cache_inherited:
  "same_but_cache s t \<Longrightarrow> q \<in> set object_prototype \<Longrightarrow>
     (obj_get (mediaQueryCache t) q = None) = (obj_get (mediaQueryCache s) q = None)"
  by (simp add: same_but_cache_iff)

lemma notifications_append [simp]: "notifications (a @ b) = notifications a @ notifications b"
  by (induction a rule: notifications.induct) auto

lemma persist_calls_append [simp]: "persist_calls (a @ b) = persist_calls a @ persist_calls b"
  by (induction a rule: persist_calls.induct) auto

lemma broadcasts_append [simp]: "broadcasts (a @ b) = broadcasts a @ broadcasts b"
  by (induction a rule: broadcasts.induct) auto

lemma only_warn_notifications: "set fx \<subseteq> {Warn} \<Longrightarrow> notifications fx = []"
  by (induction fx rule: notifications.induct) auto

lemma only_warn_persist_calls: "set fx \<subseteq> {Warn} \<Longrightarrow> persist_calls fx = []"
  by (induction fx rule: persist_calls.induct) auto

lemma only_warn_broadcasts: "set fx \<subseteq> {Warn} \<Longrightarrow> broadcasts fx = []"
  by (induction fx rule: broadcasts.induct) auto

lemma obj_read_Absent: "obj_read ob k = Absent \<longleftrightarrow> obj_get ob k = None \<and> k \<notin> set object_prototype"
  by (auto simp: obj_read_def split: option.splits)

lemma obj_read_Inherited:
  "obj_read ob k = Inherited \<longleftrightarrow> obj_get ob k = None \<and> k \<in> set object_prototype"
  by (auto simp: obj_read_def split: option.splits)

lemmas obj_read_iff = obj_read_Own obj_read_Absent obj_read_Inherited

lemma resolveThemeOption_frame:
  "resolveThemeOption e s k opt = (r, s1, fx) \<Longrightarrow> same_but_cache s s1 \<and> set fx \<subseteq> {Warn}"
  unfolding resolveThemeOption_def
  by (auto split: option.splits if_splits prod.splits lookup.splits
           simp: Let_def obj_read_Absent same_but_cache_upd)

lemma resolveThemeOption_cong:
  assumes "same_but_cache s t"
  shows "fst (resolveThemeOption e t k opt) = fst (resolveThemeOption e s k opt)
       \<and> snd (snd (resolveThemeOption e t k opt)) = snd (snd (resolveThemeOption e s k opt))"
proof (cases "option_media opt")
  case None
  then show ?thesis by (simp add: resolveThemeOption_def)
next
  case (Some m)
  obtain q a b where m: "m = (q, a, b)" by (cases m)
  note sys = same_but_cache_fields(6) [OF assms]
  show ?thesis
  proof (cases "q \<in> set object_prototype")
    case True
    note inh = same_but_cache_inherited [OF assms True]
    show ?thesis using Some m sys True inh unfolding resolveThemeOption_def
      by (auto split: lookup.splits simp: Let_def obj_read_iff)
  next
    case False
    show ?thesis using Some m sys False unfolding resolveThemeOption_def
      by (auto split: lookup.splits simp: Let_def obj_read_iff obj_get_set)
  qed
qed

lemma resolveEntry_frame:
  "resolveEntry e s k v = (r, s1, fx) \<Longrightarrow> same_but_cache s s1 \<and> set fx \<subseteq> {Warn}"
  unfolding resolveEntry_def
  by (auto split: lookup.splits if_splits dest: resolveThemeOption_frame)

lemma resolveEntry_cong:
  assumes "same_but_cache s t"
  shows "fst (resolveEntry e t k v) = fst (resolveEntry e s k v)
       \<and> snd (snd (resolveEntry e t k v)) = snd (snd (resolveEntry e s k v))"
  using same_but_cache_fields(2) [OF assms] resolveThemeOption_cong [OF assms]
  unfolding resolveEntry_def by (auto split: lookup.splits)

lemma resolveEntries_frame:
  "resolveEntries e s es = (r, s1, fx) \<Longrightarrow> same_but_cache s s1 \<and> set fx \<subseteq> {Warn}"
proof (induction es arbitrary: s r s1 fx)
  case Nil
  then show ?case by auto
next
  case (Cons p es)
  obtain k v where p: "p = (k, v)" by (cases p)
  obtain r1 t fx1 where o: "resolveEntry e s k v = (r1, t, fx1)"
    by (cases "resolveEntry e s k v") auto
  note f1 = resolveEntry_frame [OF o]
  show ?case
  proof (cases r1)
    case (Inl err)
    with Cons.prems p o f1 show ?thesis by auto
  next
    case (Inr x)
    obtain r2 u fx2 where rest: "resolveEntries e t es = (r2, u, fx2)"
      by (cases "resolveEntries e t es") auto
    note f2 = Cons.IH [OF rest]
    from Cons.prems p o Inr rest
    have "s1 = u" "fx = fx1 @ fx2" by (auto split: sum.splits)
    with f1 f2 show ?thesis by (auto intro: same_but_cache_trans)
  qed
qed

lemma resolveEntries_cong:
  "same_but_cache s t \<Longrightarrow>
     fst (resolveEntries e t es) = fst (resolveEntries e s es)
   \<and> snd (snd (resolveEntries e t es)) = snd (snd (resolveEntries e s es))"
proof (induction es arbitrary: s t)
  case Nil
  then show ?case by simp
next
  case (Cons p es)
  obtain k v where p: "p = (k, v)" by (cases p)
  obtain r1 s1 fx1 where o1: "resolveEntry e s k v = (r1, s1, fx1)"
    by (cases "resolveEntry e s k v") auto
  obtain r2 t1 fx2 where o2: "resolveEntry e t k v = (r2, t1, fx2)"
    by (cases "resolveEntry e t k v") auto
  from resolveEntry_cong [OF Cons.prems, of e k v] o1 o2
  have eq: "r2 = r1" "fx2 = fx1" by auto
  have "same_but_cache s1 t1"
    using resolveEntry_frame [OF o1] resolveEntry_frame [OF o2] Cons.prems
    by (blast intro: same_but_cache_trans same_but_cache_sym)
  from Cons.IH [OF this]
  have "fst (resolveEntries e t1 es) = fst (resolveEntries e s1 es)"
    "snd (snd (resolveEntries e t1 es)) = snd (snd (resolveEntries e s1 es))" by auto
  then show ?case using p o1 o2 eq
    by (cases "resolveEntries e t1 es"; cases "resolveEntries e s1 es")
       (auto split: sum.splits)
qed

lemma resolveThemes_frame:
  "resolveThemes e s = (r, s1, fx) \<Longrightarrow> same_but_cache s s1 \<and> set fx \<subseteq> {Warn}"
  unfolding resolveThemes_def
  by (cases "resolveEntries e s (currentThemes s)")
     (auto split: sum.splits dest: resolveEntries_frame)

lemma resolveThemes_cong:
  assumes "same_but_cache s t"
  shows "fst (resolveThemes e t) = fst (resolveThemes e s)"
proof -
  have "currentThemes t = currentThemes s" by (rule same_but_cache_fields(5) [OF assms])
  with resolveEntries_cong [OF assms, of e "currentThemes s"] show ?thesis
    unfolding resolveThemes_def
    by (cases "resolveEntries e s (currentThemes s)"; cases "resolveEntries e t (currentThemes s)")
       (auto split: sum.splits)
qed

lemma notify_loop_Inr:
  "fst (resolveThemes e s) = Inr r \<Longrightarrow>
     \<exists>s1 fx. notify_loop e s ls = (Inr (), s1, fx) \<and> same_but_cache s s1
       \<and> notifications fx = map (\<lambda>l. (l, currentThemes s, r)) ls
       \<and> persist_calls fx = [] \<and> broadcasts fx = []"
proof (induction ls arbitrary: s)
  case Nil
  then show ?case by simp
next
  case (Cons l ls)
  obtain r1 s1 fx1 where res: "resolveThemes e s = (r1, s1, fx1)"
    by (cases "resolveThemes e s") auto
  with Cons.prems have r1: "r1 = Inr r" by simp
  note f1 = resolveThemes_frame [OF res]
  from resolveThemes_cong [OF conjunct1 [OF f1], of e] Cons.prems
  have "fst (resolveThemes e s1) = Inr r" by simp
  from Cons.IH [OF this] obtain s2 fx2 where
    IH: "notify_loop e s1 ls = (Inr (), s2, fx2)" "same_but_cache s1 s2"
      "notifications fx2 = map (\<lambda>l. (l, currentThemes s1, r)) ls"
      "persist_calls fx2 = []" "broadcasts fx2 = []"
    by blast
  have cur: "currentThemes s1 = currentThemes s"
    by (rule same_but_cache_fields(5)) (rule conjunct1 [OF f1])
  have "notify_loop e s (l # ls) = (Inr (), s2, fx1 @ [Notify l (currentThemes s1) r] @ fx2)"
    using res r1 IH(1) by simp
  moreover have "same_but_cache s s2"
    using f1 IH(2) by (blast intro: same_but_cache_trans)
  ultimately show ?case
    using IH(3-5) f1 cur
    by (simp add: only_warn_notifications only_warn_persist_calls only_warn_broadcasts)
qed

lemma notify_loop_Inl:
  assumes "fst (resolveThemes e s) = Inl err" and "ls \<noteq> []"
  shows "\<exists>s1 fx. notify_loop e s ls = (Inl err, s1, fx) \<and> same_but_cache s s1
       \<and> notifications fx = [] \<and> persist_calls fx = [] \<and> broadcasts fx = []"
proof -
  obtain l ls' where ls: "ls = l # ls'" using assms(2) by (cases ls) auto
  obtain r1 s1 fx1 where res: "resolveThemes e s = (r1, s1, fx1)"
    by (cases "resolveThemes e s") auto
  with assms(1) have "r1 = Inl err" by simp
  with res ls have "notify_loop e s ls = (Inl err, s1, fx1)" by simp
  with resolveThemes_frame [OF res] show ?thesis
    by (simp add: only_warn_notifications only_warn_persist_calls only_warn_broadcasts)
qed

text \<open>What a notification pass does, by cases.\<close>

lemma notify_cases:
  obtains
    (idle) "listeners s = []" "notify e s = (Inr (), s, [])"
  | (ok) r s1 fx where "fst (resolveThemes e s) = Inr r" "notify e s = (Inr (), s1, fx)"
      "same_but_cache s s1"
      "notifications fx = map (\<lambda>l. (l, currentThemes s, r)) (listeners s)"
      "persist_calls fx = []" "broadcasts fx = []"
  | (fail) err s1 fx where "listeners s \<noteq> []" "fst (resolveThemes e s) = Inl err"
      "notify e s = (Inl err, s1, fx)" "same_but_cache s s1"
      "notifications fx = []" "persist_calls fx = []" "broadcasts fx = []"
proof (cases "listeners s = []")
  case True
  then have "notify e s = (Inr (), s, [])" by (simp add: notify_def)
  with True show ?thesis by (rule idle)
next
  case False
  show ?thesis
  proof (cases "fst (resolveThemes e s)")
    case (Inl err)
    from notify_loop_Inl [OF Inl False] obtain s1 fx where
      "notify_loop e s (listeners s) = (Inl err, s1, fx)" "same_but_cache s s1"
      "notifications fx = []" "persist_calls fx = []" "broadcasts fx = []"
      by blast
    then show ?thesis using fail [OF False Inl] by (simp only: notify_def)
  next
    case (Inr r)
    from notify_loop_Inr [OF Inr, of "listeners s"] obtain s1 fx where
      "notify_loop e s (listeners s) = (Inr (), s1, fx)" "same_but_cache s s1"
      "notifications fx = map (\<lambda>l. (l, currentThemes s, r)) (listeners s)"
      "persist_calls fx = []" "broadcasts fx = []"
      by blast
    then show ?thesis using ok [OF Inr] by (simp only: notify_def)
  qed
qed

subsection \<open>What \<^verbatim>\<open>setThemes\<close> does, by cases\<close>

lemma setThemes_begin_cases:
  fixes e s upd
  defines "s0 \<equiv> s\<lparr>currentThemes := spread (currentThemes s) (updated_by upd (currentThemes s))\<rparr>"
  obtains
    (persisted) s1 fx where
      "setThemes_begin e s upd = (Inr (getStateToPersist s1), s1, fx @ [SetItem (key s1) (getStateToPersist s1)])"
      "notify e s0 = (Inr (), s1, fx)" "same_but_cache s0 s1"
      "persist_calls fx = []" "broadcasts fx = []"
  | (raised) err s1 fx where
      "setThemes_begin e s upd = (Inl err, s1, fx)"
      "notify e s0 = (Inl err, s1, fx)" "same_but_cache s0 s1"
      "notifications fx = []" "persist_calls fx = []" "broadcasts fx = []"
proof -
  have unf: "setThemes_begin e s upd =
      (case notify e s0 of
         (Inl err, s1, fx) \<Rightarrow> (Inl err, s1, fx)
       | (Inr _, s1, fx) \<Rightarrow>
           (Inr (getStateToPersist s1), s1, fx @ [SetItem (key s1) (getStateToPersist s1)]))"
    unfolding setThemes_begin_def setThemesAndNotify_def s0_def updated_by_def Let_def ..
  show ?thesis
  proof (rule notify_cases [where e = e and s = s0], goal_cases)
    case idle: 1
    then show ?thesis using unf by (intro persisted [of s0 "[]"]) simp_all
  next
    case ok: (2 r s1 fx)
    then show ?thesis using unf by (intro persisted [of s1 fx]) simp_all
  next
    case fail: (3 err s1 fx)
    then show ?thesis using unf by (intro raised [of err s1 fx]) simp_all
  qed
qed

lemma setThemes_cases:
  fixes e s upd
  defines "s0 \<equiv> s\<lparr>currentThemes := spread (currentThemes s) (updated_by upd (currentThemes s))\<rparr>"
  obtains
    (persisted) s1 fx where
      "setThemes e s upd =
         (case setItem (storage s) (key s) (content s1 (getStateToPersist s1)) of
            Inl err \<Rightarrow> (Inl err, s1, fx @ [SetItem (key s) (getStateToPersist s1)])
          | Inr _ \<Rightarrow> (Inr (), s1, fx @ [SetItem (key s) (getStateToPersist s1)]
                        @ (if has_broadcast (storage s)
                           then [Broadcast (key s) (getStateToPersist s1)] else [])))"
      "setThemes_begin e s upd =
         (Inr (getStateToPersist s1), s1, fx @ [SetItem (key s) (getStateToPersist s1)])"
      "notify e s0 = (Inr (), s1, fx)" "same_but_cache s0 s1"
      "persist_calls fx = []" "broadcasts fx = []"
  | (raised) err s1 fx where
      "setThemes e s upd = (Inl err, s1, fx)"
      "notify e s0 = (Inl err, s1, fx)" "same_but_cache s0 s1"
      "notifications fx = []" "persist_calls fx = []" "broadcasts fx = []"
proof (rule setThemes_begin_cases [where e = e and s = s and upd = upd], goal_cases)
  case persisted: (1 s1 fx)
  then have sbc: "same_but_cache s0 s1"
    and b: "setThemes_begin e s upd =
      (Inr (getStateToPersist s1), s1, fx @ [SetItem (key s1) (getStateToPersist s1)])"
    by (simp_all add: s0_def)
  have k: "key s1 = key s" and st: "storage s1 = storage s"
    using same_but_cache_fields(1,3) [OF sbc] by (simp_all add: s0_def)
  show ?thesis
  proof (rule that(1) [of s1 fx])
    show "setThemes e s upd =
         (case setItem (storage s) (key s) (content s1 (getStateToPersist s1)) of
            Inl err \<Rightarrow> (Inl err, s1, fx @ [SetItem (key s) (getStateToPersist s1)])
          | Inr _ \<Rightarrow> (Inr (), s1, fx @ [SetItem (key s) (getStateToPersist s1)]
                        @ (if has_broadcast (storage s)
                           then [Broadcast (key s) (getStateToPersist s1)] else [])))"
      unfolding setThemes_def setThemes_end_def using b k st
      by (simp split: sum.splits)
    show "setThemes_begin e s upd =
         (Inr (getStateToPersist s1), s1, fx @ [SetItem (key s) (getStateToPersist s1)])"
      using b k by simp
  qed (use persisted in \<open>simp_all add: s0_def\<close>)
next
  case raised: (2 err s1 fx)
  then have b: "setThemes_begin e s upd = (Inl err, s1, fx)" by simp
  show ?thesis
  proof (rule that(2) [of err s1 fx])
    show "setThemes e s upd = (Inl err, s1, fx)"
      unfolding setThemes_def using b by simp
  qed (use raised in \<open>simp_all add: s0_def\<close>)
qed

lemma setThemes_state:
  assumes "setThemes e s upd = (res, s', fx)"
  shows "same_but_cache
           (s\<lparr>currentThemes := spread (currentThemes s) (updated_by upd (currentThemes s))\<rparr>) s'"
proof (rule setThemes_cases [where e = e and s = s and upd = upd], goal_cases)
  case (1 s1 fx1)
  with assms have "s' = s1" by (auto split: sum.splits)
  with 1 show ?case by simp
next
  case (2 err s1 fx1)
  with assms have "s' = s1" by simp
  with 2 show ?case by simp
qed

text \<open>
  C2.  \<^verbatim>\<open>setThemes\<close> changes the selection only at the dimensions of the partial update
  (or of the updater's result): every other dimension keeps its value, each dimension
  of the update takes the update's value, and the overrides stay as they were, whatever
  the outcome of notification and persistence.
\<close>

theorem setThemes_merge:
  assumes "setThemes e s upd = (res, s', fx)"
  shows "(\<forall>d. d \<notin> fst ` set (updated_by upd (getThemes s))
            \<longrightarrow> obj_get (getThemes s') d = obj_get (getThemes s) d)
       \<and> (is_obj (updated_by upd (getThemes s))
            \<longrightarrow> (\<forall>d v. obj_get (updated_by upd (getThemes s)) d = Some v
                    \<longrightarrow> obj_get (getThemes s') d = Some v))
       \<and> store_systemOptions s' = store_systemOptions s"
proof -
  let ?u = "updated_by upd (currentThemes s)"
  note sbc = setThemes_state [OF assms]
  have cur: "currentThemes s' = spread (currentThemes s) ?u"
    using same_but_cache_fields(5) [OF sbc] by simp
  have sys: "store_systemOptions s' = store_systemOptions s"
    using same_but_cache_fields(6) [OF sbc] by simp
  show ?thesis
    unfolding getThemes_def cur
    using sys by (simp add: obj_get_spread_other obj_get_spread_in)
qed

theorem setThemes_merge_witness:
  "obj_get (getThemes (fst (snd (setThemes light_env observed_store
       (Partial [(''contrast'', ''high'')]))))) ''colorScheme'' = Some ''system''
   \<and> obj_get (getThemes (fst (snd (setThemes light_env observed_store
       (Partial [(''contrast'', ''high'')]))))) ''contrast'' = Some ''high''
   \<and> store_systemOptions (fst (snd (setThemes light_env observed_store
       (Partial [(''contrast'', ''high'')])))) = [(''colorScheme'', Outcomes ''dark'' ''light'')]"
proof -
  let ?run = "setThemes light_env observed_store (Partial [(''contrast'', ''high'')])"
  have run: "?run = (fst ?run, fst (snd ?run), snd (snd ?run))" by simp
  have u: "updated_by (Partial [(''contrast'', ''high'')]) (getThemes observed_store)
             = [(''contrast'', ''high'')]"
    by (simp add: updated_by_def)
  have a: "''colorScheme'' \<notin> fst ` set [(''contrast'', ''high'')]" by simp
  have b: "is_obj [(''contrast'', ''high'')]" by (simp add: is_obj_def)
  have c: "obj_get [(''contrast'', ''high'')] ''contrast'' = Some ''high''"
    by (simp add: obj_get_def)
  have d: "obj_get (getThemes observed_store) ''colorScheme'' = Some ''system''"
    by (simp add: obj_get_def getThemes_def observed_store_def demo_store_def)
  have e: "store_systemOptions observed_store = [(''colorScheme'', Outcomes ''dark'' ''light'')]"
    by (simp add: observed_store_def demo_store_def)
  from setThemes_merge [OF run] show ?thesis
    unfolding u using a b c d e by auto
qed

lemma resolveThemes_same_cache:
  "same_but_cache s t \<Longrightarrow> fst (getResolvedThemes e t) = fst (getResolvedThemes e s)"
  unfolding getResolvedThemes_def by (rule resolveThemes_cong)

subsection \<open>What \<^verbatim>\<open>setThemes\<close> hands to the backend\<close>

lemma content_getStateToPersist:
  "content s (getStateToPersist s)
     = \<lparr>version = 1, themes = currentThemes s, systemOptions = store_systemOptions s\<rparr>"
  by (simp add: content_def getStateToPersist_def overrides_object_def)

lemma resolvable_cong: "same_but_cache s t \<Longrightarrow> resolvable e t = resolvable e s"
  by (simp add: resolvable_def resolveThemes_cong)

lemma notify_Inr:
  assumes "notify e s = (Inr (), s1, fx)"
  shows "\<exists>r. (listeners s \<noteq> [] \<longrightarrow> fst (resolveThemes e s) = Inr r)
           \<and> notifications fx = map (\<lambda>l. (l, currentThemes s, r)) (listeners s)"
proof (rule notify_cases [where e = e and s = s], goal_cases)
  case 1
  with assms show ?case by simp
next
  case (2 r s2 fx2)
  with assms have "fx2 = fx" by simp
  with 2 show ?case by auto
next
  case (3 err s2 fx2)
  with assms show ?case by simp
qed

lemma notify_Inl:
  assumes "notify e s = (Inl err, s1, fx)"
  shows "listeners s \<noteq> [] \<and> fst (resolveThemes e s) = Inl err \<and> notifications fx = []"
proof (rule notify_cases [where e = e and s = s], goal_cases)
  case 1
  with assms show ?case by simp
next
  case (2 r s2 fx2)
  with assms show ?case by simp
next
  case (3 err' s2 fx2)
  with assms have "err' = err" "fx2 = fx" by simp_all
  with 3 show ?case by simp
qed

text \<open>The outcome of \<^verbatim>\<open>setThemes\<close> in full, by whether the notification pass
  completes.\<close>

lemma setThemes_outcome:
  assumes run: "setThemes e s upd = (res, s', fx)"
  defines "merged \<equiv> spread (currentThemes s) (updated_by upd (currentThemes s))"
  shows "same_but_cache (s\<lparr>currentThemes := merged\<rparr>) s'"
    and "listeners s = [] \<or> resolvable e s' \<Longrightarrow>
           \<exists>pre r. fx = pre @ [SetItem (key s) (getStateToPersist s')]
                      @ (if setItem (storage s) (key s) (content s' (getStateToPersist s')) = Inr ()
                            \<and> has_broadcast (storage s)
                         then [Broadcast (key s) (getStateToPersist s')] else [])
              \<and> res = setItem (storage s) (key s) (content s' (getStateToPersist s'))
              \<and> persist_calls pre = [] \<and> broadcasts pre = []
              \<and> (listeners s \<noteq> [] \<longrightarrow> fst (resolveThemes e s') = Inr r)
              \<and> notifications pre = map (\<lambda>l. (l, merged, r)) (listeners s)"
    and "\<not> (listeners s = [] \<or> resolvable e s') \<Longrightarrow>
           \<exists>err. res = Inl err \<and> fst (resolveThemes e s') = Inl err
              \<and> notifications fx = [] \<and> persist_calls fx = [] \<and> broadcasts fx = []"
proof -
  let ?s0 = "s\<lparr>currentThemes := merged\<rparr>"
  show sbc: "same_but_cache ?s0 s'"
    unfolding merged_def by (rule setThemes_state [OF run])
  have rc: "fst (resolveThemes e s') = fst (resolveThemes e ?s0)"
    by (rule resolveThemes_cong [OF sbc])
  have both: "(listeners s = [] \<or> resolvable e s' \<longrightarrow>
           (\<exists>pre r. fx = pre @ [SetItem (key s) (getStateToPersist s')]
                      @ (if setItem (storage s) (key s) (content s' (getStateToPersist s')) = Inr ()
                            \<and> has_broadcast (storage s)
                         then [Broadcast (key s) (getStateToPersist s')] else [])
              \<and> res = setItem (storage s) (key s) (content s' (getStateToPersist s'))
              \<and> persist_calls pre = [] \<and> broadcasts pre = []
              \<and> (listeners s \<noteq> [] \<longrightarrow> fst (resolveThemes e s') = Inr r)
              \<and> notifications pre = map (\<lambda>l. (l, merged, r)) (listeners s)))
      \<and> (\<not> (listeners s = [] \<or> resolvable e s') \<longrightarrow>
           (\<exists>err. res = Inl err \<and> fst (resolveThemes e s') = Inl err
              \<and> notifications fx = [] \<and> persist_calls fx = [] \<and> broadcasts fx = []))"
  proof (rule setThemes_cases [where e = e and s = s and upd = upd], goal_cases)
    case (1 s1 fx1)
    let ?v = "getStateToPersist s1"
    from 1 have unf: "setThemes e s upd =
         (case setItem (storage s) (key s) (content s1 ?v) of
            Inl err \<Rightarrow> (Inl err, s1, fx1 @ [SetItem (key s) ?v])
          | Inr _ \<Rightarrow> (Inr (), s1, fx1 @ [SetItem (key s) ?v]
                        @ (if has_broadcast (storage s) then [Broadcast (key s) ?v] else [])))"
      and pc: "persist_calls fx1 = []" and bc: "broadcasts fx1 = []"
      and nt: "notify e ?s0 = (Inr (), s1, fx1)"
      by (simp_all add: merged_def)
    from unf run have s1: "s1 = s'" by (auto split: sum.splits)
    from notify_Inr [OF nt] obtain r where
      r: "listeners s \<noteq> [] \<longrightarrow> fst (resolveThemes e ?s0) = Inr r"
         "notifications fx1 = map (\<lambda>l. (l, merged, r)) (listeners s)"
      by auto
    from r(1) rc have ok: "listeners s = [] \<or> resolvable e s'"
      by (auto simp: resolvable_def)
    have "fx = fx1 @ [SetItem (key s) (getStateToPersist s')]
                      @ (if setItem (storage s) (key s) (content s' (getStateToPersist s')) = Inr ()
                            \<and> has_broadcast (storage s)
                         then [Broadcast (key s) (getStateToPersist s')] else [])"
      and "res = setItem (storage s) (key s) (content s' (getStateToPersist s'))"
      using unf run s1 by (auto split: sum.splits)
    with pc bc r rc ok show ?case by auto
  next
    case (2 err s1 fx1)
    then have unf: "setThemes e s upd = (Inl err, s1, fx1)"
      and nt: "notify e ?s0 = (Inl err, s1, fx1)"
      and pc: "persist_calls fx1 = []" and bc: "broadcasts fx1 = []"
      by (simp_all add: merged_def)
    from notify_Inl [OF nt] have f: "listeners s \<noteq> []" "fst (resolveThemes e ?s0) = Inl err"
      "notifications fx1 = []" by simp_all
    from f(1,2) rc have "\<not> (listeners s = [] \<or> resolvable e s')"
      by (simp add: resolvable_def)
    moreover from unf run have "res = Inl err" "fx = fx1" by simp_all
    ultimately show ?case using f rc pc bc by auto
  qed
  from both show "listeners s = [] \<or> resolvable e s' \<Longrightarrow>
           \<exists>pre r. fx = pre @ [SetItem (key s) (getStateToPersist s')]
                      @ (if setItem (storage s) (key s) (content s' (getStateToPersist s')) = Inr ()
                            \<and> has_broadcast (storage s)
                         then [Broadcast (key s) (getStateToPersist s')] else [])
              \<and> res = setItem (storage s) (key s) (content s' (getStateToPersist s'))
              \<and> persist_calls pre = [] \<and> broadcasts pre = []
              \<and> (listeners s \<noteq> [] \<longrightarrow> fst (resolveThemes e s') = Inr r)
              \<and> notifications pre = map (\<lambda>l. (l, merged, r)) (listeners s)"
    by blast
  from both show "\<not> (listeners s = [] \<or> resolvable e s') \<Longrightarrow>
           \<exists>err. res = Inl err \<and> fst (resolveThemes e s') = Inl err
              \<and> notifications fx = [] \<and> persist_calls fx = [] \<and> broadcasts fx = []"
    by blast
qed





subsection \<open>A backend that rejects\<close>

text \<open>
  C7.  Let the backend reject a \<^verbatim>\<open>setItem\<close> of the store's key with the envelope of the
  merged selection.  Then \<^verbatim>\<open>setThemes\<close> leaves the merged selection in memory and
  broadcasts nothing.  When the notification pass completes, \<^verbatim>\<open>setThemes\<close> rejects with
  the backend's error, \<^verbatim>\<open>setItem\<close> was called exactly once, as the last effect, and
  before it every subscriber was notified once, in order, with the merged selection and
  its resolution.  When the notification pass raises, \<^verbatim>\<open>setThemes\<close> rejects with the
  resolver's error and \<^verbatim>\<open>setItem\<close> is not called.
\<close>

theorem setThemes_rejection:
  assumes "setThemes e s upd = (res, s', fx)"
    and "setItem (storage s) (key s)
           \<lparr>version = 1, themes = spread (getThemes s) (updated_by upd (getThemes s)),
            systemOptions = store_systemOptions s\<rparr> = Inl err"
  shows "getThemes s' = spread (getThemes s) (updated_by upd (getThemes s))
       \<and> broadcasts fx = []
       \<and> (if listeners s = [] \<or> resolvable e s'
          then res = Inl err \<and> persist_calls fx = [(key s, getStateToPersist s')]
               \<and> (\<exists>pre r. fx = pre @ [SetItem (key s) (getStateToPersist s')]
                     \<and> (listeners s \<noteq> [] \<longrightarrow> fst (getResolvedThemes e s') = Inr r)
                     \<and> notifications pre = map (\<lambda>l. (l, getThemes s', r)) (listeners s))
          else (\<exists>u. res = Inl u \<and> fst (getResolvedThemes e s') = Inl u)
               \<and> persist_calls fx = [] \<and> notifications fx = [])"
proof -
  note out = setThemes_outcome [OF assms(1)]
  have cur: "currentThemes s' = spread (currentThemes s) (updated_by upd (currentThemes s))"
    and sys: "store_systemOptions s' = store_systemOptions s"
    using same_but_cache_fields(5,6) [OF out(1)] by simp_all
  have rej: "setItem (storage s) (key s) (content s' (getStateToPersist s')) = Inl err"
    using assms(2) by (simp add: content_getStateToPersist cur sys getThemes_def)
  show ?thesis
  proof (cases "listeners s = [] \<or> resolvable e s'")
    case True
    from out(2) [OF True] rej obtain pre r where
      fx: "fx = pre @ [SetItem (key s) (getStateToPersist s')]"
      and res: "res = Inl err"
      and pc: "persist_calls pre = []" and bc: "broadcasts pre = []"
      and r: "listeners s \<noteq> [] \<longrightarrow> fst (resolveThemes e s') = Inr r"
      and nts: "notifications pre
                  = map (\<lambda>l. (l, spread (currentThemes s) (updated_by upd (currentThemes s)), r))
                      (listeners s)"
      by auto
    from fx r nts cur
    have "\<exists>pre r. fx = pre @ [SetItem (key s) (getStateToPersist s')]
                     \<and> (listeners s \<noteq> [] \<longrightarrow> fst (getResolvedThemes e s') = Inr r)
                     \<and> notifications pre = map (\<lambda>l. (l, getThemes s', r)) (listeners s)"
      by (auto simp: getResolvedThemes_def getThemes_def)
    moreover from fx pc bc have "persist_calls fx = [(key s, getStateToPersist s')]"
      "broadcasts fx = []" by simp_all
    ultimately show ?thesis using True res cur by (simp add: getThemes_def)
  next
    case False
    from out(3) [OF False] False cur show ?thesis
      by (auto simp: getResolvedThemes_def getThemes_def)
  qed
qed

theorem setThemes_rejection_witness:
  "fst (setThemes light_env failing_store (Partial [(''contrast'', ''high'')]))
     = Inl (Rejected ''quota'')
   \<and> getThemes (fst (snd (setThemes light_env failing_store (Partial [(''contrast'', ''high'')]))))
     = [(''colorScheme'', ''system''), (''contrast'', ''high'')]
   \<and> broadcasts (snd (snd (setThemes light_env failing_store
         (Partial [(''contrast'', ''high'')])))) = []
   \<and> persist_calls (snd (snd (setThemes light_env failing_store
         (Partial [(''contrast'', ''high'')]))))
     = [(''palettez'',
         \<lparr>ref_version = 1, ref_themes = [(''colorScheme'', ''system''), (''contrast'', ''high'')],
          ref_systemOptions = 0\<rparr>)]"
proof -
  let ?run = "setThemes light_env failing_store (Partial [(''contrast'', ''high'')])"
  let ?r = "\<lparr>ref_version = 1, ref_themes = [(''colorScheme'', ''system''), (''contrast'', ''high'')],
          ref_systemOptions = 0\<rparr>"
  have run: "?run = (fst ?run, fst (snd ?run), snd (snd ?run))" by simp
  have sp: "spread (getThemes failing_store)
              (updated_by (Partial [(''contrast'', ''high'')]) (getThemes failing_store))
            = [(''colorScheme'', ''system''), (''contrast'', ''high'')]"
    by code_simp
  have rej: "setItem (storage failing_store) (key failing_store)
           \<lparr>version = 1,
            themes = spread (getThemes failing_store)
                       (updated_by (Partial [(''contrast'', ''high'')]) (getThemes failing_store)),
            systemOptions = store_systemOptions failing_store\<rparr> = Inl (Rejected ''quota'')"
    by (simp add: failing_store_def failing_storage_def)
  have ok: "listeners failing_store = [] \<or> resolvable light_env (fst (snd ?run))"
    by code_simp
  have k: "key failing_store = ''palettez''" by code_simp
  have env: "getStateToPersist (fst (snd ?run)) = ?r" by code_simp
  note inst = setThemes_rejection [OF run rej]
  from inst have b: "getThemes (fst (snd ?run))
      = [(''colorScheme'', ''system''), (''contrast'', ''high'')]"
    unfolding sp by (rule conjunct1)
  from inst have c: "broadcasts (snd (snd ?run)) = []" by blast
  from inst ok have "fst ?run = Inl (Rejected ''quota'')
       \<and> persist_calls (snd (snd ?run)) = [(key failing_store, getStateToPersist (fst (snd ?run)))]"
    by simp
  then have a: "fst ?run = Inl (Rejected ''quota'')"
    and d: "persist_calls (snd (snd ?run)) = [(''palettez'', ?r)]"
    unfolding env k by simp_all
  show ?thesis by (intro conjI a b c d)
qed

text \<open>\<^verbatim>\<open>updateSystemOption\<close> hands the rejection of its \<^verbatim>\<open>setThemes\<close> call to nobody.\<close>

lemma updateSystemOption_unhandled:
  "snd (updateSystemOption light_env failing_store ''colorScheme'' (''dark-modern'', ''light-modern''))
     = [Notify 1 [(''colorScheme'', ''system''), (''contrast'', ''standard'')]
                 [(''colorScheme'', Some ''light-modern''), (''contrast'', Some ''standard'')],
        Notify 2 [(''colorScheme'', ''system''), (''contrast'', ''standard'')]
                 [(''colorScheme'', Some ''light-modern''), (''contrast'', Some ''standard'')],
        SetItem ''palettez''
          \<lparr>ref_version = 1,
           ref_themes = [(''colorScheme'', ''system''), (''contrast'', ''standard'')],
           ref_systemOptions = 0\<rparr>,
        Unhandled (Rejected ''quota'')]"
  by code_simp

subsection \<open>Media query changes\<close>

lemma notify_facts:
  assumes "notify e s = (res, s', fx)"
  shows "same_but_cache s s' \<and> persist_calls fx = [] \<and> broadcasts fx = []
       \<and> (case res of
             Inr _ \<Rightarrow> (\<exists>r. (listeners s \<noteq> [] \<longrightarrow> fst (resolveThemes e s) = Inr r)
                          \<and> notifications fx = map (\<lambda>l. (l, currentThemes s, r)) (listeners s))
           | Inl err \<Rightarrow> notifications fx = [] \<and> listeners s \<noteq> []
                          \<and> fst (resolveThemes e s) = Inl err)"
proof (rule notify_cases [where e = e and s = s], goal_cases)
  case 1
  with assms show ?case by auto
next
  case (2 r s1 fx1)
  with assms have "res = Inr ()" "s' = s1" "fx = fx1" by simp_all
  with 2 show ?case by auto
next
  case (3 err s1 fx1)
  with assms have "res = Inl err" "s' = s1" "fx = fx1" by simp_all
  with 3 show ?case by auto
qed

text \<open>
  C5 at a store where two dimensions share a media query.  The syntax dimension selects
  its system option, and the flip of the query changes its resolved value from light to
  dark; but the only change listener is the one registered for the colour scheme, which
  no longer selects its system option, so the subscriber is not notified.
\<close>

theorem shared_query_flip_unnotified:
  "listeners shared_light_store = [1]
   \<and> obj_get (getThemes shared_light_store) ''syntax'' = Some ''system''
   \<and> lookup_option (config shared_light_store) ''syntax'' ''system'' = Some system_option
   \<and> mediaQueryCache shared_light_store = [(dark_query, (''colorScheme'', ''system''))]
   \<and> fst (getResolvedThemes light_env shared_light_store)
       = Inr [(''colorScheme'', Some ''light''), (''syntax'', Some ''light'')]
   \<and> fst (getResolvedThemes (flip light_env dark_query) shared_light_store)
       = Inr [(''colorScheme'', Some ''light''), (''syntax'', Some ''dark'')]
   \<and> notifications (snd (snd (media_change (flip light_env dark_query) shared_light_store
         dark_query))) = []"
  by code_simp

lemma media_change_irrelevant:
  assumes "aborted s \<or> obj_get (mediaQueryCache s) q = None
           \<or> (\<exists>d v. obj_get (mediaQueryCache s) q = Some (d, v) \<and> obj_get (currentThemes s) d \<noteq> Some v)"
  shows "media_change e s q = (Inr (), s, [])"
  using assms unfolding media_change_def by (auto split: option.splits)

lemma media_change_relevant:
  assumes "\<not> aborted s" and "obj_get (mediaQueryCache s) q = Some (d, v)"
    and "obj_get (currentThemes s) d = Some v"
    and "media_change e s q = (res, s', fx)"
  shows "same_but_cache (s\<lparr>currentThemes := spread [] (currentThemes s)\<rparr>) s'
       \<and> (\<forall>r. fst (getResolvedThemes e s') = Inr r \<longrightarrow>
             res = Inr ()
             \<and> notifications fx = map (\<lambda>l. (l, spread [] (currentThemes s), r)) (listeners s))"
proof -
  let ?s0 = "s\<lparr>currentThemes := spread [] (currentThemes s)\<rparr>"
  from assms have n: "notify e ?s0 = (res, s', fx)"
    by (simp add: media_change_def setThemesAndNotify_def)
  note f = notify_facts [OF n]
  then have sbc: "same_but_cache ?s0 s'" by simp
  have "fst (getResolvedThemes e s') = fst (resolveThemes e ?s0)"
    unfolding getResolvedThemes_def by (rule resolveThemes_cong [OF sbc])
  with f sbc show ?thesis by (cases res) auto
qed

lemma new_demo_store: "new_ThemeStore demo_options = Inr demo_store"
proof -
  have kc: "keyConfig demo_config None
              = (demo_keyed, [(''colorScheme'', Outcomes ''dark'' ''light'')])"
    by code_simp
  have dt: "getDefaultThemes demo_config
              = Inr [(''colorScheme'', ''system''), (''contrast'', ''standard'')]"
    by code_simp
  show ?thesis
    by (simp add: new_ThemeStore_def demo_options_def demo_store_def kc dt PACKAGE_NAME_def)
qed

lemma new_shared_store: "new_ThemeStore shared_options = Inr shared_store"
proof -
  have kc: "keyConfig shared_config None
              = (config shared_store, store_systemOptions shared_store)"
    by code_simp
  have dt: "getDefaultThemes shared_config = Inr (defaultThemes shared_store)"
    by code_simp
  show ?thesis
    by (simp add: new_ThemeStore_def shared_options_def kc dt PACKAGE_NAME_def)
       (simp add: shared_store_def)
qed

lemma update_fresh: "k \<notin> fst ` set xs \<Longrightarrow> AList.update k v xs = xs @ [(k, v)]"
  by (induction xs) auto

subsection \<open>The registry\<close>

lemma registry_destroy_absent:
  "map_of (registry w) (storeKey k) = None \<Longrightarrow>
     registry_destroy w k = (Inl (NotFound (storeKey k)), w)"
  by (simp add: registry_destroy_def)

lemma registry_destroy_present:
  "map_of (registry w) (storeKey k) = Some r \<Longrightarrow>
     registry_destroy w k =
       (Inr (), w\<lparr>stores := (stores w)[r := store_destroy (stores w ! r)],
                  registry := AList.delete (storeKey k) (registry w)\<rparr>)"
  by (simp add: registry_destroy_def)

lemma storeKey_Some: "storeKey (Some (storeKey k)) = storeKey k"
  by (simp add: storeKey_def PACKAGE_NAME_def split: option.splits)

lemma set_delete: "set (AList.delete k al) = {p \<in> set al. fst p \<noteq> k}"
  by (auto simp: AList.delete_eq)

lemma distinct_snd_delete:
  "distinct (map snd al) \<Longrightarrow> distinct (map snd (AList.delete k al))"
  by (simp add: AList.delete_eq distinct_map_filter)

lemma registry_ok_destroy:
  assumes "registry_ok w"
  shows "registry_ok (snd (registry_destroy w k))"
proof (cases "map_of (registry w) (storeKey k)")
  case None
  with assms show ?thesis by (simp add: registry_destroy_absent)
next
  case (Some r)
  let ?w' = "w\<lparr>stores := (stores w)[r := store_destroy (stores w ! r)],
                registry := AList.delete (storeKey k) (registry w)\<rparr>"
  from assms have dk: "distinct (map fst (registry w))" and dr: "distinct (map snd (registry w))"
    and inb: "\<forall>(k, r) \<in> set (registry w). r < length (stores w)"
    and live: "\<forall>r < length (stores w). aborted (stores w ! r) \<or> r \<in> snd ` set (registry w)"
    by (auto simp: registry_ok_def list_all_iff)
  from Some have mem: "(storeKey k, r) \<in> set (registry w)" by (rule map_of_SomeD)
  with inb have r: "r < length (stores w)" by auto
  have "aborted (stores ?w' ! r') \<or> r' \<in> snd ` set (registry ?w')"
    if r': "r' < length (stores ?w')" for r'
  proof (cases "r' = r")
    case True
    with r show ?thesis by (simp add: store_destroy_def)
  next
    case False
    show ?thesis
    proof (cases "aborted (stores w ! r')")
      case True
      with False show ?thesis by simp
    next
      case live': False
      with live r' obtain k' where k': "(k', r') \<in> set (registry w)" by force
      have "k' \<noteq> storeKey k"
      proof
        assume "k' = storeKey k"
        with k' mem dk have "r' = r" by (metis eq_key_imp_eq_value)
        with False show False by simp
      qed
      with k' have "(k', r') \<in> set (AList.delete (storeKey k) (registry w))"
        by (simp add: set_delete)
      then show ?thesis by force
    qed
  qed
  moreover have "\<forall>(k', r') \<in> set (registry ?w'). r' < length (stores ?w')"
    using inb by (auto simp: set_delete)
  ultimately show ?thesis
    using dk dr Some
    by (simp add: registry_destroy_present registry_ok_def list_all_iff distinct_delete
        distinct_snd_delete)
qed

lemma new_ThemeStore_fresh:
  "new_ThemeStore opts = Inr st \<Longrightarrow>
     \<not> aborted st \<and> listeners st = [] \<and> watchers st = [] \<and> mediaQueryCache st = []"
  unfolding new_ThemeStore_def by (auto simp: Let_def split: sum.splits)

text \<open>The world in which \<^verbatim>\<open>create\<close> constructs the new store: the given one, after
  the registered store of the key, if any, was destroyed.\<close>

lemma registry_create_unfold:
  fixes w opts
  defines "k \<equiv> storeKey (opt_key opts)"
  defines "w1 \<equiv> (if map_of (registry w) k \<noteq> None then snd (registry_destroy w (Some k)) else w)"
  shows "registry_create w opts =
           (case new_ThemeStore opts of
              Inl err \<Rightarrow> (Inl err, w1)
            | Inr themeStore \<Rightarrow>
                (Inr (length (stores w1)),
                 w1\<lparr>stores := stores w1 @ [themeStore],
                     registry := registry w1 @ [(k, length (stores w1))]\<rparr>))"
    and "map_of (registry w1) k = None"
    and "registry_ok w \<Longrightarrow> registry_ok w1"
    and "length (stores w1) = length (stores w)"
proof -
  have sk: "storeKey (Some k) = k" unfolding k_def by (rule storeKey_Some)
  show none: "map_of (registry w1) k = None"
  proof (cases "map_of (registry w) k")
    case None
    then show ?thesis by (simp add: w1_def)
  next
    case (Some r)
    then have "registry w1 = AList.delete k (registry w)"
      using registry_destroy_present [of w "Some k" r] by (simp add: w1_def sk)
    then show ?thesis by (simp add: delete_conv')
  qed
  then have "k \<notin> fst ` set (registry w1)" by (simp add: map_of_eq_None_iff)
  then have "AList.update k n (registry w1) = registry w1 @ [(k, n)]" for n
    by (rule update_fresh)
  then show "registry_create w opts =
           (case new_ThemeStore opts of
              Inl err \<Rightarrow> (Inl err, w1)
            | Inr themeStore \<Rightarrow>
                (Inr (length (stores w1)),
                 w1\<lparr>stores := stores w1 @ [themeStore],
                     registry := registry w1 @ [(k, length (stores w1))]\<rparr>))"
    unfolding registry_create_def Let_def k_def [symmetric] w1_def [symmetric]
    by (simp split: sum.splits)
  show "registry_ok w1" if "registry_ok w"
    using that registry_ok_destroy [of w "Some k"] by (simp add: w1_def)
  show "length (stores w1) = length (stores w)"
  proof (cases "map_of (registry w) k")
    case None
    then show ?thesis by (simp add: w1_def)
  next
    case (Some r)
    then show ?thesis
      using registry_destroy_present [of w "Some k" r] by (simp add: w1_def sk)
  qed
qed

lemma defaultEntries_error: "defaultEntries cfg = Inl err \<Longrightarrow> err = TypeError FirstOption"
proof (induction cfg)
  case Nil
  then show ?case by simp
next
  case (Cons p cfg)
  obtain themeKey d where p: "p = (themeKey, d)" by (cases p)
  with Cons show ?case
    by (auto simp: defaultOptionValue_def split: sum.splits option.splits list.splits)
qed

lemma new_ThemeStore_error: "new_ThemeStore opts = Inl err \<Longrightarrow> err = TypeError FirstOption"
  unfolding new_ThemeStore_def getDefaultThemes_def
  by (auto simp: Let_def split: sum.splits dest: defaultEntries_error)

lemma registry_ok_create:
  assumes "registry_ok w"
  shows "registry_ok (snd (registry_create w opts))"
proof -
  define k where "k = storeKey (opt_key opts)"
  define w1 where
    "w1 = (if map_of (registry w) k \<noteq> None then snd (registry_destroy w (Some k)) else w)"
  note u = registry_create_unfold [of w opts, folded k_def, folded w1_def]
  have ok1: "registry_ok w1" using u(3) assms by simp
  show ?thesis
  proof (cases "new_ThemeStore opts")
    case (Inl err)
    with u(1) ok1 show ?thesis by simp
  next
    case (Inr st)
    let ?n = "length (stores w1)"
    let ?w2 = "w1\<lparr>stores := stores w1 @ [st], registry := registry w1 @ [(k, ?n)]\<rparr>"
    from ok1 have dk: "distinct (map fst (registry w1))"
      and dr: "distinct (map snd (registry w1))"
      and inb: "\<forall>(k', r) \<in> set (registry w1). r < ?n"
      and live: "\<forall>r < ?n. aborted (stores w1 ! r) \<or> r \<in> snd ` set (registry w1)"
      by (auto simp: registry_ok_def list_all_iff)
    from u(2) have fresh: "k \<notin> fst ` set (registry w1)" by (simp add: map_of_eq_None_iff)
    from inb have nfresh: "?n \<notin> snd ` set (registry w1)" by force
    have c4: "\<forall>r \<in> set [0..<length (stores ?w2)].
               aborted (stores ?w2 ! r) \<or> r \<in> snd ` set (registry ?w2)"
    proof
      fix r assume "r \<in> set [0..<length (stores ?w2)]"
      then have r: "r < Suc ?n" by auto
      show "aborted (stores ?w2 ! r) \<or> r \<in> snd ` set (registry ?w2)"
      proof (cases "r = ?n")
        case True
        then show ?thesis by simp
      next
        case False
        with r have "r < ?n" by simp
        with live show ?thesis by (auto simp: nth_append)
      qed
    qed
    have c3: "\<forall>p \<in> set (registry ?w2). case p of (k', r) \<Rightarrow> r < length (stores ?w2)"
      using inb by auto
    have c1: "distinct (map fst (registry ?w2))" using dk fresh by simp
    have c2: "distinct (map snd (registry ?w2))" using dr nfresh by simp
    have "registry_ok ?w2"
      unfolding registry_ok_def list_all_iff by (intro conjI c1 c2 c3 c4)
    with u(1) Inr show ?thesis by simp
  qed
qed

lemma registry_get_iff:
  "(\<exists>err. registry_get w k = Inl err) \<longleftrightarrow> map_of (registry w) (storeKey k) = None"
  "(registry_get w k = Inl (NotFound (storeKey k))) \<longleftrightarrow> map_of (registry w) (storeKey k) = None"
  "(registry_get w k = Inr r) \<longleftrightarrow> map_of (registry w) (storeKey k) = Some r"
  by (auto simp: registry_get_def split: option.splits)

lemma registry_destroy_iff:
  "(\<exists>err. fst (registry_destroy w k) = Inl err) \<longleftrightarrow> map_of (registry w) (storeKey k) = None"
  "(fst (registry_destroy w k) = Inl (NotFound (storeKey k)))
     \<longleftrightarrow> map_of (registry w) (storeKey k) = None"
  by (auto simp: registry_destroy_def split: option.splits)

lemma registry_create_replaces:
  assumes ok: "registry_ok w" and old: "registry_get w (opt_key opts) = Inr r_old"
  shows "stores (snd (registry_create w opts)) ! r_old = store_destroy (stores w ! r_old)"
    and "\<forall>n. fst (registry_create w opts) \<noteq> Inl (NotFound n)"
    and "\<forall>st. new_ThemeStore opts = Inr st \<longrightarrow>
           (\<exists>r_new. fst (registry_create w opts) = Inr r_new \<and> r_new \<noteq> r_old
              \<and> registry_get (snd (registry_create w opts)) (opt_key opts) = Inr r_new
              \<and> stores (snd (registry_create w opts)) ! r_new = st)"
    and "\<forall>err. new_ThemeStore opts = Inl err \<longrightarrow>
           fst (registry_create w opts) = Inl err
           \<and> registry_get (snd (registry_create w opts)) (opt_key opts)
               = Inl (NotFound (storeKey (opt_key opts)))"
proof -
  define k where "k = storeKey (opt_key opts)"
  define w1 where
    "w1 = (if map_of (registry w) k \<noteq> None then snd (registry_destroy w (Some k)) else w)"
  note u = registry_create_unfold [of w opts, folded k_def, folded w1_def]
  from old have reg: "map_of (registry w) k = Some r_old"
    by (simp add: registry_get_iff k_def)
  then have "(k, r_old) \<in> set (registry w)" by (rule map_of_SomeD)
  with ok have r: "r_old < length (stores w)"
    by (auto simp: registry_ok_def list_all_iff)
  have sk: "storeKey (Some k) = k" unfolding k_def by (rule storeKey_Some)
  have w1: "w1 = w\<lparr>stores := (stores w)[r_old := store_destroy (stores w ! r_old)],
                    registry := AList.delete k (registry w)\<rparr>"
    using reg registry_destroy_present [of w "Some k" r_old] by (simp add: w1_def sk)
  have s1: "stores w1 ! r_old = store_destroy (stores w ! r_old)" using r by (simp add: w1)
  have len: "length (stores w1) = length (stores w)" by (simp add: w1)
  show "stores (snd (registry_create w opts)) ! r_old = store_destroy (stores w ! r_old)"
    using u(1) s1 r len by (cases "new_ThemeStore opts") (simp_all add: nth_append)
  show "\<forall>n. fst (registry_create w opts) \<noteq> Inl (NotFound n)"
    using u(1) by (cases "new_ThemeStore opts") (auto dest: new_ThemeStore_error)
  show "\<forall>st. new_ThemeStore opts = Inr st \<longrightarrow>
           (\<exists>r_new. fst (registry_create w opts) = Inr r_new \<and> r_new \<noteq> r_old
              \<and> registry_get (snd (registry_create w opts)) (opt_key opts) = Inr r_new
              \<and> stores (snd (registry_create w opts)) ! r_new = st)"
  proof (intro allI impI)
    fix st assume st: "new_ThemeStore opts = Inr st"
    let ?n = "length (stores w1)"
    let ?w2 = "w1\<lparr>stores := stores w1 @ [st], registry := registry w1 @ [(k, ?n)]\<rparr>"
    from u(1) st have c: "registry_create w opts = (Inr ?n, ?w2)" by simp
    have "map_of (registry ?w2) k = Some ?n" using u(2) by (simp add: map_add_def)
    then have "registry_get ?w2 (opt_key opts) = Inr ?n"
      by (simp add: registry_get_iff k_def)
    moreover have "stores ?w2 ! ?n = st" by simp
    moreover have "?n \<noteq> r_old" using r len by simp
    ultimately show "\<exists>r_new. fst (registry_create w opts) = Inr r_new \<and> r_new \<noteq> r_old
              \<and> registry_get (snd (registry_create w opts)) (opt_key opts) = Inr r_new
              \<and> stores (snd (registry_create w opts)) ! r_new = st"
      unfolding c by simp
  qed
  show "\<forall>err. new_ThemeStore opts = Inl err \<longrightarrow>
           fst (registry_create w opts) = Inl err
           \<and> registry_get (snd (registry_create w opts)) (opt_key opts)
               = Inl (NotFound (storeKey (opt_key opts)))"
    using u(1,2) by (auto simp: registry_get_def k_def [symmetric])
qed

text \<open>
  C8.  \<^verbatim>\<open>get\<close> and \<^verbatim>\<open>destroy\<close> raise, and raise NotFound, exactly when no store is
  registered under the key they are given (an omitted or empty key standing for the
  package name), and a failed \<^verbatim>\<open>destroy\<close> changes nothing.  \<^verbatim>\<open>create\<close> on a key with a
  registered store never raises NotFound: the registered store is destroyed (no
  listeners, signal aborted); when the constructor returns, the new store is a different
  object, registered under the key and returned; when the constructor raises, the key is
  left unregistered.  Every live store stays the one registered store of its key.
\<close>

theorem registry_contract:
  assumes "registry_ok w"
  shows "((\<exists>err. registry_get w k = Inl err) \<longleftrightarrow> map_of (registry w) (storeKey k) = None)
       \<and> ((registry_get w k = Inl (NotFound (storeKey k)))
            \<longleftrightarrow> map_of (registry w) (storeKey k) = None)
       \<and> ((\<exists>err. fst (registry_destroy w k) = Inl err)
            \<longleftrightarrow> map_of (registry w) (storeKey k) = None)
       \<and> ((fst (registry_destroy w k) = Inl (NotFound (storeKey k)))
            \<longleftrightarrow> map_of (registry w) (storeKey k) = None)
       \<and> (map_of (registry w) (storeKey k) = None \<longrightarrow> snd (registry_destroy w k) = w)
       \<and> (\<forall>r_old. registry_get w (opt_key opts) = Inr r_old \<longrightarrow>
            stores (snd (registry_create w opts)) ! r_old = store_destroy (stores w ! r_old)
            \<and> listeners (stores (snd (registry_create w opts)) ! r_old) = []
            \<and> aborted (stores (snd (registry_create w opts)) ! r_old)
            \<and> (\<forall>n. fst (registry_create w opts) \<noteq> Inl (NotFound n))
            \<and> (\<forall>st. new_ThemeStore opts = Inr st \<longrightarrow>
                 (\<exists>r_new. fst (registry_create w opts) = Inr r_new \<and> r_new \<noteq> r_old
                    \<and> registry_get (snd (registry_create w opts)) (opt_key opts) = Inr r_new
                    \<and> stores (snd (registry_create w opts)) ! r_new = st
                    \<and> \<not> aborted st))
            \<and> (\<forall>err. new_ThemeStore opts = Inl err \<longrightarrow>
                 fst (registry_create w opts) = Inl err
                 \<and> registry_get (snd (registry_create w opts)) (opt_key opts)
                     = Inl (NotFound (storeKey (opt_key opts)))))
       \<and> registry_ok (snd (registry_create w opts))
       \<and> registry_ok (snd (registry_destroy w k))"
proof -
  have create: "stores (snd (registry_create w opts)) ! r_old = store_destroy (stores w ! r_old)
            \<and> listeners (stores (snd (registry_create w opts)) ! r_old) = []
            \<and> aborted (stores (snd (registry_create w opts)) ! r_old)
            \<and> (\<forall>n. fst (registry_create w opts) \<noteq> Inl (NotFound n))
            \<and> (\<forall>st. new_ThemeStore opts = Inr st \<longrightarrow>
                 (\<exists>r_new. fst (registry_create w opts) = Inr r_new \<and> r_new \<noteq> r_old
                    \<and> registry_get (snd (registry_create w opts)) (opt_key opts) = Inr r_new
                    \<and> stores (snd (registry_create w opts)) ! r_new = st
                    \<and> \<not> aborted st))
            \<and> (\<forall>err. new_ThemeStore opts = Inl err \<longrightarrow>
                 fst (registry_create w opts) = Inl err
                 \<and> registry_get (snd (registry_create w opts)) (opt_key opts)
                     = Inl (NotFound (storeKey (opt_key opts))))"
    if old: "registry_get w (opt_key opts) = Inr r_old" for r_old
  proof -
    note r = registry_create_replaces [OF assms old]
    from r(1) have "listeners (stores (snd (registry_create w opts)) ! r_old) = []"
      "aborted (stores (snd (registry_create w opts)) ! r_old)"
      by (simp_all add: store_destroy_def)
    moreover from r(3) have "\<forall>st. new_ThemeStore opts = Inr st \<longrightarrow>
                 (\<exists>r_new. fst (registry_create w opts) = Inr r_new \<and> r_new \<noteq> r_old
                    \<and> registry_get (snd (registry_create w opts)) (opt_key opts) = Inr r_new
                    \<and> stores (snd (registry_create w opts)) ! r_new = st
                    \<and> \<not> aborted st)"
      using new_ThemeStore_fresh [of opts] by blast
    ultimately show ?thesis using r(1,2,4) by blast
  qed
  have absent: "snd (registry_destroy w k) = w" if "map_of (registry w) (storeKey k) = None"
    using that by (simp add: registry_destroy_absent)
  show ?thesis
    using registry_get_iff(1,2) [of w k] registry_destroy_iff [of w k] create absent
      registry_ok_create [OF assms, of opts] registry_ok_destroy [OF assms, of k]
    by blast
qed

lemma demo_world_ok: "registry_ok demo_world"
  by code_simp

theorem registry_contract_witness:
  "registry_get demo_world (Some ''missing'') = Inl (NotFound ''missing'')
   \<and> fst (registry_destroy demo_world (Some ''missing'')) = Inl (NotFound ''missing'')
   \<and> snd (registry_destroy demo_world (Some ''missing'')) = demo_world
   \<and> registry_get demo_world None = Inr 0
   \<and> aborted (stores (snd (registry_create demo_world demo_options)) ! 0)
   \<and> (\<exists>r_new. fst (registry_create demo_world demo_options) = Inr r_new \<and> r_new \<noteq> 0
        \<and> registry_get (snd (registry_create demo_world demo_options)) None = Inr r_new
        \<and> stores (snd (registry_create demo_world demo_options)) ! r_new = demo_store)
   \<and> registry_ok (snd (registry_create demo_world demo_options))"
proof -
  note inst = registry_contract [OF demo_world_ok, of "Some ''missing''" demo_options]
  have sk: "storeKey (Some ''missing'') = ''missing''" by code_simp
  have none: "map_of (registry demo_world) (storeKey (Some ''missing'')) = None" by code_simp
  have k: "opt_key demo_options = None" by (simp add: demo_options_def)
  have old: "registry_get demo_world (opt_key demo_options) = Inr 0" by code_simp
  from inst none sk have a: "registry_get demo_world (Some ''missing'') = Inl (NotFound ''missing'')"
    and b: "fst (registry_destroy demo_world (Some ''missing'')) = Inl (NotFound ''missing'')"
    and c: "snd (registry_destroy demo_world (Some ''missing'')) = demo_world"
    by simp_all
  from old k have d: "registry_get demo_world None = Inr 0" by simp
  from inst old have e: "aborted (stores (snd (registry_create demo_world demo_options)) ! 0)"
    by blast
  from inst old new_demo_store k
  have f: "\<exists>r_new. fst (registry_create demo_world demo_options) = Inr r_new \<and> r_new \<noteq> 0
        \<and> registry_get (snd (registry_create demo_world demo_options)) None = Inr r_new
        \<and> stores (snd (registry_create demo_world demo_options)) ! r_new = demo_store"
    by force
  from inst have g: "registry_ok (snd (registry_create demo_world demo_options))" by blast
  show ?thesis by (intro conjI a b c d e f g)
qed

subsection \<open>Destroying a store\<close>

text \<open>
  C9, as the code has it.  \<^verbatim>\<open>ThemeStore._destroy\<close> never raises and doing it twice is
  doing it once; it empties the listener set and aborts the signal, after which a media
  query change, a watch event and a notification pass do nothing.  It does not bar new
  subscriptions: \<^verbatim>\<open>subscribe\<close> does not look at the signal, and a listener subscribed
  after \<^verbatim>\<open>_destroy\<close> is notified by the next \<^verbatim>\<open>setThemes\<close> whose selection resolves, while the
  signal stays aborted.  \<^verbatim>\<open>_destroy\<close> does not touch the registry.  \<^verbatim>\<open>Registry.destroy\<close> on
  a registered key does \<^verbatim>\<open>_destroy\<close> on the registered store and removes the entry, so that
  \<^verbatim>\<open>get\<close> raises NotFound afterwards; a second \<^verbatim>\<open>Registry.destroy\<close> on the key raises
  NotFound and changes nothing.
\<close>

theorem destroy_effects:
  "store_destroy (store_destroy s) = store_destroy s
   \<and> listeners (store_destroy s) = [] \<and> aborted (store_destroy s)
   \<and> media_change e (store_destroy s) q = (Inr (), store_destroy s, [])
   \<and> watch_event e (store_destroy s) k p = ([], store_destroy s, [])
   \<and> notify e (store_destroy s) = (Inr (), store_destroy s, [])
   \<and> subscribe e (store_destroy s) l False = (Inr (), (store_destroy s)\<lparr>listeners := [l]\<rparr>, [])
   \<and> (\<forall>upd res t fx.
         setThemes e ((store_destroy s)\<lparr>listeners := [l]\<rparr>) upd = (res, t, fx) \<longrightarrow>
           aborted t \<and> listeners t = [l]
           \<and> media_change e t q = (Inr (), t, [])
           \<and> watch_event e t k p = ([], t, [])
           \<and> (resolvable e t \<longrightarrow>
                 (\<exists>r. fst (getResolvedThemes e t) = Inr r
                       \<and> notifications fx = [(l, getThemes t, r)])))
   \<and> (\<forall>r. registry_get w n = Inr r \<longrightarrow>
         fst (registry_destroy w n) = Inr ()
         \<and> stores (snd (registry_destroy w n)) = (stores w)[r := store_destroy (stores w ! r)]
         \<and> registry_get (snd (registry_destroy w n)) n = Inl (NotFound (storeKey n))
         \<and> registry_destroy (snd (registry_destroy w n)) n
             = (Inl (NotFound (storeKey n)), snd (registry_destroy w n)))"
proof -
  have reg: "fst (registry_destroy w n) = Inr ()
         \<and> stores (snd (registry_destroy w n)) = (stores w)[r := store_destroy (stores w ! r)]
         \<and> registry_get (snd (registry_destroy w n)) n = Inl (NotFound (storeKey n))
         \<and> registry_destroy (snd (registry_destroy w n)) n
             = (Inl (NotFound (storeKey n)), snd (registry_destroy w n))"
    if "registry_get w n = Inr r" for r
  proof -
    from that have reg: "map_of (registry w) (storeKey n) = Some r"
      by (simp add: registry_get_iff)
    note d = registry_destroy_present [OF reg]
    have gone: "map_of (registry (snd (registry_destroy w n))) (storeKey n) = None"
      by (simp add: d delete_conv')
    show ?thesis
      using d gone registry_destroy_absent [OF gone] by (simp add: registry_get_def)
  qed
  have later: "aborted t \<and> listeners t = [l]
           \<and> media_change e t q = (Inr (), t, [])
           \<and> watch_event e t k p = ([], t, [])
           \<and> (resolvable e t \<longrightarrow>
                 (\<exists>r. fst (getResolvedThemes e t) = Inr r
                       \<and> notifications fx = [(l, getThemes t, r)]))"
    if run: "setThemes e ((store_destroy s)\<lparr>listeners := [l]\<rparr>) upd = (res, t, fx)"
    for upd res t fx
  proof -
    let ?d = "(store_destroy s)\<lparr>listeners := [l]\<rparr>"
    note out = setThemes_outcome [OF run]
    have ab: "aborted t" and ls: "listeners t = [l]"
      and cur: "currentThemes t = spread (currentThemes ?d) (updated_by upd (currentThemes ?d))"
      using same_but_cache_fields(5,7,8) [OF out(1)] by (simp_all add: store_destroy_def)
    have silent: "media_change e t q = (Inr (), t, [])" "watch_event e t k p = ([], t, [])"
      using ab by (simp_all add: media_change_def watch_event_def)
    have "\<exists>r. fst (getResolvedThemes e t) = Inr r \<and> notifications fx = [(l, getThemes t, r)]"
      if ok: "resolvable e t"
    proof -
      from ok have ok': "listeners ?d = [] \<or> resolvable e t" by simp
      from out(2) [OF ok'] obtain pre r where
        fx: "fx = pre @ [SetItem (key ?d) (getStateToPersist t)]
                      @ (if setItem (storage ?d) (key ?d) (content t (getStateToPersist t)) = Inr ()
                            \<and> has_broadcast (storage ?d)
                         then [Broadcast (key ?d) (getStateToPersist t)] else [])"
        and r: "listeners ?d \<noteq> [] \<longrightarrow> fst (resolveThemes e t) = Inr r"
        and nts: "notifications pre
                    = map (\<lambda>l. (l, spread (currentThemes ?d) (updated_by upd (currentThemes ?d)), r))
                        (listeners ?d)"
        by blast
      from fx have "notifications fx = notifications pre" by simp
      with nts cur have "notifications fx = [(l, getThemes t, r)]" by (simp add: getThemes_def)
      moreover from r have "fst (getResolvedThemes e t) = Inr r"
        by (simp add: getResolvedThemes_def)
      ultimately show ?thesis by blast
    qed
    with ab ls silent show ?thesis by blast
  qed
  have now: "store_destroy (store_destroy s) = store_destroy s
   \<and> listeners (store_destroy s) = [] \<and> aborted (store_destroy s)
   \<and> media_change e (store_destroy s) q = (Inr (), store_destroy s, [])
   \<and> watch_event e (store_destroy s) k p = ([], store_destroy s, [])
   \<and> notify e (store_destroy s) = (Inr (), store_destroy s, [])
   \<and> subscribe e (store_destroy s) l False = (Inr (), (store_destroy s)\<lparr>listeners := [l]\<rparr>, [])"
    by (simp add: store_destroy_def media_change_def watch_event_def notify_def subscribe_def
        set_add_def)
  from now reg later show ?thesis by blast
qed

theorem destroy_effects_witness:
  "registry_get demo_world None = Inr 0
   \<and> fst (registry_destroy demo_world None) = Inr ()
   \<and> aborted (stores (snd (registry_destroy demo_world None)) ! 0)
   \<and> registry_get (snd (registry_destroy demo_world None)) None = Inl (NotFound ''palettez'')
   \<and> notifications (snd (snd (setThemes light_env
        ((store_destroy observed_store)\<lparr>listeners := [5]\<rparr>) (Partial [(''contrast'', ''high'')]))))
       = [(5, [(''colorScheme'', ''system''), (''contrast'', ''high'')],
              [(''colorScheme'', Some ''light''), (''contrast'', Some ''high'')])]"
proof -
  let ?run = "setThemes light_env ((store_destroy observed_store)\<lparr>listeners := [5]\<rparr>)
                (Partial [(''contrast'', ''high'')])"
  note inst = destroy_effects [of observed_store light_env dark_query None stale_payload 5
                                  demo_world None]
  have old: "registry_get demo_world None = Inr 0" by code_simp
  have sk: "storeKey None = ''palettez''" by code_simp
  have len: "0 < length (stores demo_world)" by code_simp
  from inst old have a: "fst (registry_destroy demo_world None) = Inr ()"
    and st: "stores (snd (registry_destroy demo_world None))
              = (stores demo_world)[0 := store_destroy (stores demo_world ! 0)]"
    and c: "registry_get (snd (registry_destroy demo_world None)) None
              = Inl (NotFound (storeKey None))"
    by blast+
  from st len have b: "aborted (stores (snd (registry_destroy demo_world None)) ! 0)"
    by (simp add: store_destroy_def)
  from c sk have c': "registry_get (snd (registry_destroy demo_world None)) None
              = Inl (NotFound ''palettez'')" by simp
  have run: "?run = (fst ?run, fst (snd ?run), snd (snd ?run))" by simp
  have ok: "resolvable light_env (fst (snd ?run))" by code_simp
  have gt: "getThemes (fst (snd ?run)) = [(''colorScheme'', ''system''), (''contrast'', ''high'')]"
    by code_simp
  have rs: "fst (getResolvedThemes light_env (fst (snd ?run)))
              = Inr [(''colorScheme'', Some ''light''), (''contrast'', Some ''high'')]"
    by code_simp
  from inst run have "resolvable light_env (fst (snd ?run)) \<longrightarrow>
                 (\<exists>r. fst (getResolvedThemes light_env (fst (snd ?run))) = Inr r
                       \<and> notifications (snd (snd ?run)) = [(5, getThemes (fst (snd ?run)), r)])"
    by blast
  with ok rs gt have d: "notifications (snd (snd ?run))
       = [(5, [(''colorScheme'', ''system''), (''contrast'', ''high'')],
              [(''colorScheme'', Some ''light''), (''contrast'', Some ''high'')])]"
    by auto
  show ?thesis by (intro conjI old a b c' d)
qed

theorem registry_destroy_twice_raises:
  "fst (registry_destroy demo_world None) = Inr ()
   \<and> fst (registry_destroy (snd (registry_destroy demo_world None)) None)
       = Inl (NotFound ''palettez'')
   \<and> registry_get
       (demo_world\<lparr>stores := (stores demo_world)[0 := store_destroy (stores demo_world ! 0)]\<rparr>)
       None = Inr 0"
  by code_simp

subsection \<open>Synchronising with other contexts\<close>

lemma sync_handler_replaces:
  assumes "sync_handler e s (Some (key s)) p = (res, s', fx)"
  shows "getThemes s' = themes p \<and> store_systemOptions s' = systemOptions p
       \<and> retired s' = retired s @ [store_systemOptions s]
       \<and> persist_calls fx = [] \<and> broadcasts fx = []"
proof -
  let ?s0 = "s\<lparr>retired := retired s @ [store_systemOptions s],
               store_systemOptions := systemOptions p, currentThemes := themes p\<rparr>"
  from assms have n: "notify e ?s0 = (res, s', fx)"
    by (simp add: sync_handler_def setThemesAndNotify_def)
  note f = notify_facts [OF n]
  then have sbc: "same_but_cache ?s0 s'" by simp
  from same_but_cache_fields(5,6,10) [OF sbc] f show ?thesis by (simp add: getThemes_def)
qed

lemma watch_loop_length: "length (fst (watch_loop e s k p ws)) = length ws"
proof (induction ws arbitrary: s)
  case Nil
  then show ?case by simp
next
  case (Cons w ws)
  obtain res s1 fx1 where h: "sync_handler e s k p = (res, s1, fx1)"
    by (cases "sync_handler e s k p") auto
  obtain rs s2 fx2 where l: "watch_loop e s1 k p ws = (rs, s2, fx2)"
    by (cases "watch_loop e s1 k p ws") auto
  from Cons.IH [of s1] l have "length rs = length ws" by simp
  with h l show ?case by simp
qed

text \<open>An event runs the handler once for every callback attached.\<close>

lemma watch_event_length:
  "length (fst (watch_event e s k p)) = (if aborted s then 0 else length (watchers s))"
  by (simp add: watch_event_def watch_loop_length)

lemma sync_attaches:
  "has_watch (storage s) \<Longrightarrow>
     sync s = (Some (attached s),
               s\<lparr>watchers := watchers s @ [attached s], attached := Suc (attached s)\<rparr>, [])"
  by (simp add: sync_def)

text \<open>
  C4 fails in the code.  The subscribed demo store has called \<^verbatim>\<open>sync()\<close>, and a watch
  event for its key carries a versioned payload without override pairs.  The handler
  assigns the payload's \<^verbatim>\<open>systemOptions\<close> where \<^verbatim>\<open>restore\<close> merges them: the pair of the
  colour scheme is lost, resolution raises, the handler raises and no subscriber is
  notified, while \<^verbatim>\<open>restore\<close> on the same payload keeps the pair and notifies both.  On a
  payload whose selection lacks the contrast dimension the handler drops the dimension
  where \<^verbatim>\<open>restore\<close> falls back to its default.  And after a second call of \<^verbatim>\<open>sync()\<close> one
  event runs the handler twice and notifies every subscriber twice.
\<close>

theorem watch_event_differs_from_restore:
  "listeners watched_store = [1, 2] \<and> watchers watched_store = [0]
   \<and> store_systemOptions
       (fst (snd (watch_event light_env watched_store (Some ''palettez'') stale_payload))) = []
   \<and> store_systemOptions
       (fst (snd (restore_end light_env watched_store (Inr (Envelope stale_payload)))))
     = [(''colorScheme'', Outcomes ''dark'' ''light'')]
   \<and> fst (watch_event light_env watched_store (Some ''palettez'') stale_payload)
     = [Inl (TypeError SystemOption)]
   \<and> notifications
       (snd (snd (watch_event light_env watched_store (Some ''palettez'') stale_payload))) = []
   \<and> fst (restore_end light_env watched_store (Inr (Envelope stale_payload))) = Inr ()
   \<and> map fst (notifications
       (snd (snd (restore_end light_env watched_store (Inr (Envelope stale_payload))))))
     = [1, 2]
   \<and> getThemes
       (fst (snd (watch_event light_env watched_store (Some ''palettez'') partial_payload)))
     = [(''colorScheme'', ''dark'')]
   \<and> getThemes
       (fst (snd (restore_end light_env watched_store (Inr (Envelope partial_payload)))))
     = [(''colorScheme'', ''dark''), (''contrast'', ''standard'')]
   \<and> watchers twice_watched_store = [0, 1]
   \<and> fst (watch_event light_env twice_watched_store (Some ''palettez'') full_payload)
     = [Inr (), Inr ()]
   \<and> map fst (notifications
       (snd (snd (watch_event light_env twice_watched_store (Some ''palettez'') full_payload))))
     = [1, 2, 1, 2]"
  by code_simp

subsection \<open>Restoring\<close>

text \<open>
  C6 fails in the code.  The backend of a subscribed store holds a legacy payload that
  names, besides the colour scheme, a dimension that is no longer configured.
  \<^verbatim>\<open>restore\<close> lays the whole payload over the defaults, the resolution of the new
  selection reads the option of an undefined configuration entry and raises, and
  \<^verbatim>\<open>restore\<close> rejects with the TypeError without having notified any subscriber.  With
  the payload that names the colour scheme only, \<^verbatim>\<open>restore\<close> succeeds and notifies both
  subscribers once.
\<close>

theorem restore_stale_legacy_unnotified:
  "getItem (storage stale_legacy_store) (key stale_legacy_store)
     = Inr (Legacy [(''colorScheme'', ''dark''), (''density'', ''compact'')])
   \<and> listeners stale_legacy_store = [1, 2]
   \<and> fst (restore light_env stale_legacy_store) = Inl (TypeError ConfigTheme)
   \<and> notifications (snd (snd (restore light_env stale_legacy_store))) = []
   \<and> getThemes (fst (snd (restore light_env stale_legacy_store)))
     = [(''colorScheme'', ''dark''), (''contrast'', ''standard''), (''density'', ''compact'')]
   \<and> fst (restore light_env legacy_store) = Inr ()
   \<and> notifications (snd (snd (restore light_env legacy_store)))
     = [(1, [(''colorScheme'', ''dark''), (''contrast'', ''standard'')],
            [(''colorScheme'', Some ''dark''), (''contrast'', Some ''standard'')]),
        (2, [(''colorScheme'', ''dark''), (''contrast'', ''standard'')],
            [(''colorScheme'', Some ''dark''), (''contrast'', Some ''standard'')])]"
  by code_simp

subsection \<open>The resolver after a watch event\<close>

text \<open>
  C1 fails in the code.  The demo store has called \<^verbatim>\<open>sync()\<close> and received a watch event
  for its key with a versioned payload that carries the store's own selection and no
  override pairs.  Its selection is within the configuration, the selected option of
  the colour scheme has a media triple, and the context is a client; but the handler
  has replaced the overrides by the payload's, the pair of the colour scheme is gone,
  and \<^verbatim>\<open>getResolvedThemes\<close> raises instead of returning the value for a match or for no
  match.  Before the event it resolves as the rule says, in a client by the pair and on a
  server to the declared value with a warning.
\<close>

theorem resolution_raises_after_watch_event:
  "getThemes synced_store = [(''colorScheme'', ''system''), (''contrast'', ''standard'')]
   \<and> lookup_option (config synced_store) ''colorScheme'' ''system'' = Some system_option
   \<and> lookup_option (config synced_store) ''contrast'' ''standard''
       = Some \<lparr>option_value = ''standard'', option_media = None\<rparr>
   \<and> isClient light_env
   \<and> store_systemOptions synced_store = []
   \<and> fst (getResolvedThemes light_env synced_store) = Inl (TypeError SystemOption)
   \<and> fst (getResolvedThemes light_env demo_store)
       = Inr [(''colorScheme'', Some ''light''), (''contrast'', Some ''standard'')]
   \<and> fst (getResolvedThemes dark_env demo_store)
       = Inr [(''colorScheme'', Some ''dark''), (''contrast'', Some ''standard'')]
   \<and> fst (getResolvedThemes server_env demo_store)
       = Inr [(''colorScheme'', Some ''system''), (''contrast'', Some ''standard'')]
   \<and> snd (snd (getResolvedThemes server_env demo_store)) = [Warn]"
  by code_simp

subsection \<open>When resolution returns\<close>

text \<open>Resolution goes entry by entry, and what the cache holds when an entry's turn
  comes makes no difference to its result.\<close>

lemma resolveEntries_gather:
  "fst (resolveEntries e s es)
     = gather (map (\<lambda>(d, v). (d, fst (resolveEntry e s d v))) es)"
proof (induction es arbitrary: s)
  case Nil
  then show ?case by simp
next
  case (Cons p es)
  obtain d v where p: "p = (d, v)" by (cases p)
  obtain r1 s1 fx1 where o: "resolveEntry e s d v = (r1, s1, fx1)"
    by (cases "resolveEntry e s d v") auto
  show ?case
  proof (cases r1)
    case (Inl err)
    with p o show ?thesis by simp
  next
    case (Inr x)
    have sbc: "same_but_cache s s1" using resolveEntry_frame [OF o] by simp
    have "fst (resolveEntries e s1 es) = fst (resolveEntries e s es)"
      using resolveEntries_cong [OF sbc] by simp
    also have "\<dots> = gather (map (\<lambda>(d, v). (d, fst (resolveEntry e s d v))) es)"
      by (rule Cons.IH)
    finally have rest: "fst (resolveEntries e s1 es)
        = gather (map (\<lambda>(d, v). (d, fst (resolveEntry e s d v))) es)" .
    show ?thesis using p o Inr rest
      by (cases "resolveEntries e s1 es") (auto split: sum.splits)
  qed
qed

lemma gather_Inr_iff:
  "(\<exists>xs. gather rs = Inr xs) \<longleftrightarrow> list_all (\<lambda>(k, r). \<exists>x. r = Inr x) rs"
proof (induction rs)
  case Nil
  then show ?case by simp
next
  case (Cons p rs)
  obtain k r where p: "p = (k, r)" by (cases p)
  show ?case using Cons.IH p by (cases r) (auto split: sum.splits)
qed

lemma gather_Inl:
  "gather rs = Inl err \<Longrightarrow> \<exists>k. (k, Inl err) \<in> set rs"
proof (induction rs)
  case Nil
  then show ?case by simp
next
  case (Cons p rs)
  obtain k r where p: "p = (k, r)" by (cases p)
  show ?case using Cons p by (cases r) (auto split: sum.splits)
qed

lemma gather_member_Inl:
  "(k, Inl err) \<in> set rs \<Longrightarrow> \<exists>err'. gather rs = Inl err'"
proof (induction rs)
  case Nil
  then show ?case by simp
next
  case (Cons p rs)
  obtain k' r where p: "p = (k', r)" by (cases p)
  show ?case using Cons p by (cases r) (auto split: sum.splits)
qed

lemma gather_values:
  "gather rs = Inr xs \<Longrightarrow> list_all2 (\<lambda>(k, r) (k', x). k' = k \<and> r = Inr x) rs xs"
proof (induction rs arbitrary: xs)
  case Nil
  then show ?case by simp
next
  case (Cons p rs)
  obtain k r where p: "p = (k, r)" by (cases p)
  show ?case using Cons p by (cases r) (auto split: sum.splits)
qed

text \<open>The result of one entry, by what the configuration holds for it.\<close>

lemma resolveEntry_configured:
  "lookup_option (config s) d v = Some opt \<Longrightarrow>
     fst (resolveEntry e s d v) = fst (resolveThemeOption e s d opt)"
  by (auto simp: lookup_option_def resolveEntry_def obj_read_def split: option.splits)

lemma resolveEntry_unconfigured:
  "lookup_option (config s) d v = None \<Longrightarrow>
     fst (resolveEntry e s d v)
       = (if entry_readable e (config s) (d, v) then Inr None
          else Inl (TypeError (if obj_read (config s) d = Absent then ConfigTheme
                               else ConfigOption)))"
  by (auto simp: lookup_option_def resolveEntry_def entry_readable_def obj_read_def
           split: option.splits)

lemma entry_readable_configured:
  "lookup_option cfg d v \<noteq> None \<Longrightarrow> entry_readable e cfg (d, v)"
  by (auto simp: lookup_option_def entry_readable_def obj_read_def split: option.splits)

lemma resolveThemeOption_result:
  "fst (resolveThemeOption e s d opt)
     = (case option_media opt of
          None \<Rightarrow> Inr (Some (option_value opt))
        | Some (q, _, _) \<Rightarrow>
            if \<not> isClient e then Inr (Some (option_value opt))
            else (case obj_get (store_systemOptions s) d of
                    None \<Rightarrow> Inl (TypeError SystemOption)
                  | Some ov \<Rightarrow>
                      Inr (if (obj_get (mediaQueryCache s) q \<noteq> None \<or> q \<notin> set object_prototype)
                              \<and> matches e q
                           then fst (destructure ov) else snd (destructure ov))))"
  unfolding resolveThemeOption_def
  by (auto simp: Let_def obj_read_def obj_get_set split: option.splits lookup.splits)

lemma resolveEntry_error:
  "fst (resolveEntry e s d v) = Inl err \<Longrightarrow>
     (err = TypeError ConfigTheme \<or> err = TypeError ConfigOption)
       \<and> \<not> entry_readable e (config s) (d, v)
     \<or> err = TypeError SystemOption \<and> isClient e
       \<and> (\<exists>opt. lookup_option (config s) d v = Some opt \<and> option_media opt \<noteq> None
                 \<and> obj_get (store_systemOptions s) d = None)"
proof (cases "lookup_option (config s) d v")
  case None
  assume "fst (resolveEntry e s d v) = Inl err"
  with resolveEntry_unconfigured [OF None, of e] show ?thesis by (auto split: if_splits)
next
  case (Some opt)
  assume "fst (resolveEntry e s d v) = Inl err"
  with resolveEntry_configured [OF Some, of e] Some show ?thesis
    by (auto simp: resolveThemeOption_result split: option.splits if_splits)
qed

lemma resolveEntry_returns:
  assumes "entry_readable e (config s) (d, v)"
    and "isClient e \<longrightarrow>
           (case lookup_option (config s) d v of
              None \<Rightarrow> True
            | Some opt \<Rightarrow> option_media opt = None \<or> obj_get (store_systemOptions s) d \<noteq> None)"
  shows "\<exists>x. fst (resolveEntry e s d v) = Inr x"
proof (cases "lookup_option (config s) d v")
  case None
  with resolveEntry_unconfigured [OF None, of e] assms(1) show ?thesis by simp
next
  case (Some opt)
  with resolveEntry_configured [OF Some, of e] assms(2) show ?thesis
    by (auto simp: resolveThemeOption_result split: option.splits)
qed

lemma resolveThemes_gather:
  "fst (resolveThemes e s)
     = (case gather (map (\<lambda>(d, v). (d, fst (resolveEntry e s d v))) (currentThemes s)) of
          Inl err \<Rightarrow> Inl err
        | Inr rs \<Rightarrow> Inr (fromEntries rs))"
  using resolveEntries_gather [of e s "currentThemes s"]
  unfolding resolveThemes_def
  by (cases "resolveEntries e s (currentThemes s)") (auto split: sum.splits)

lemma in_config_readable: "in_config cfg sel \<Longrightarrow> list_all (entry_readable e cfg) sel"
  unfolding in_config_def list_all_iff by (auto intro: entry_readable_configured)

lemma resolveThemes_returns:
  assumes "list_all (entry_readable e (config s)) (currentThemes s)"
    and "isClient e \<longrightarrow> overridden (config s) (store_systemOptions s) (currentThemes s)"
  shows "\<exists>r. fst (resolveThemes e s) = Inr r"
proof -
  have "list_all (\<lambda>(k, r). \<exists>x. r = Inr x)
          (map (\<lambda>(d, v). (d, fst (resolveEntry e s d v))) (currentThemes s))"
    unfolding list_all_iff
  proof (clarsimp)
    fix d v
    assume m: "(d, v) \<in> set (currentThemes s)"
    with assms(1) have rd: "entry_readable e (config s) (d, v)" by (auto simp: list_all_iff)
    from assms(2) m have "isClient e \<longrightarrow>
           (case lookup_option (config s) d v of
              None \<Rightarrow> True
            | Some opt \<Rightarrow> option_media opt = None \<or> obj_get (store_systemOptions s) d \<noteq> None)"
      unfolding overridden_def list_all_iff by fastforce
    from resolveEntry_returns [OF rd this] show "\<exists>x. fst (resolveEntry e s d v) = Inr x" .
  qed
  then obtain xs where
    "gather (map (\<lambda>(d, v). (d, fst (resolveEntry e s d v))) (currentThemes s)) = Inr xs"
    using gather_Inr_iff by blast
  then show ?thesis by (simp add: resolveThemes_gather)
qed

lemma resolveThemes_total:
  assumes "in_config (config s) (currentThemes s)"
    and "isClient e \<longrightarrow> overridden (config s) (store_systemOptions s) (currentThemes s)"
  shows "\<exists>r. fst (resolveThemes e s) = Inr r"
  using resolveThemes_returns [OF in_config_readable [OF assms(1)] assms(2)] .

lemma resolveThemes_Inl:
  assumes "fst (resolveThemes e s) = Inl err"
  shows "(err = TypeError ConfigTheme \<or> err = TypeError ConfigOption)
           \<and> \<not> list_all (entry_readable e (config s)) (currentThemes s)
       \<or> err = TypeError SystemOption \<and> isClient e
           \<and> \<not> overridden (config s) (store_systemOptions s) (currentThemes s)"
proof -
  from assms have
    "gather (map (\<lambda>(d, v). (d, fst (resolveEntry e s d v))) (currentThemes s)) = Inl err"
    by (simp add: resolveThemes_gather split: sum.splits)
  from gather_Inl [OF this] obtain d v where m: "(d, v) \<in> set (currentThemes s)"
    and r: "fst (resolveEntry e s d v) = Inl err" by auto
  from resolveEntry_error [OF r] show ?thesis
  proof
    assume "(err = TypeError ConfigTheme \<or> err = TypeError ConfigOption)
       \<and> \<not> entry_readable e (config s) (d, v)"
    with m show ?thesis by (auto simp: list_all_iff)
  next
    assume a: "err = TypeError SystemOption \<and> isClient e
       \<and> (\<exists>opt. lookup_option (config s) d v = Some opt \<and> option_media opt \<noteq> None
                 \<and> obj_get (store_systemOptions s) d = None)"
    with m have "\<not> overridden (config s) (store_systemOptions s) (currentThemes s)"
      unfolding overridden_def list_all_iff by fastforce
    with a show ?thesis by simp
  qed
qed

lemma resolveThemes_unreadable:
  assumes "\<not> list_all (entry_readable e (config s)) (currentThemes s)"
  shows "\<exists>u. fst (resolveThemes e s) = Inl (TypeError u)"
proof -
  from assms obtain d v where m: "(d, v) \<in> set (currentThemes s)"
    and nr: "\<not> entry_readable e (config s) (d, v)"
    by (auto simp: list_all_iff)
  from nr have "lookup_option (config s) d v = None"
    using entry_readable_configured [of "config s" d v e]
    by (cases "lookup_option (config s) d v") auto
  from resolveEntry_unconfigured [OF this, of e] nr obtain u where
    "fst (resolveEntry e s d v) = Inl (TypeError u)" by auto
  with m have "(d, Inl (TypeError u))
      \<in> set (map (\<lambda>(d, v). (d, fst (resolveEntry e s d v))) (currentThemes s))"
    by force
  from gather_member_Inl [OF this] obtain err where
    g: "gather (map (\<lambda>(d, v). (d, fst (resolveEntry e s d v))) (currentThemes s)) = Inl err"
    by blast
  then have "fst (resolveThemes e s) = Inl err" by (simp add: resolveThemes_gather)
  with resolveThemes_Inl [OF this] show ?thesis by auto
qed

lemma obj_get_fromEntries:
  "distinct (map fst rs) \<Longrightarrow> obj_get (fromEntries rs) k = map_of rs k"
proof (cases "map_of rs k")
  case None
  assume "distinct (map fst rs)"
  from None have "k \<notin> fst ` set rs" by (simp add: map_of_eq_None_iff)
  then have "obj_get (spread [] rs) k = obj_get [] k" by (rule obj_get_spread_other)
  with None show ?thesis
    by (simp add: fromEntries_def obj_get_def)
next
  case (Some x)
  assume "distinct (map fst rs)"
  then have "is_obj rs" by (simp add: is_obj_def)
  moreover from Some have "obj_get rs k = Some x" by (simp add: obj_get_def)
  ultimately have "obj_get (spread [] rs) k = Some x" by (rule obj_get_spread_in)
  with Some show ?thesis by (simp add: fromEntries_def)
qed

lemma values_keys:
  "list_all2 (\<lambda>(k, r) (k', x). k' = k \<and> r = Inr x) rs xs \<Longrightarrow> map fst xs = map fst rs"
  by (induction rs xs rule: list_all2_induct) auto

lemma values_member:
  "list_all2 (\<lambda>(k, r) (k', x). k' = k \<and> r = Inr x) rs xs \<Longrightarrow> (k, Inr x) \<in> set rs
     \<Longrightarrow> (k, x) \<in> set xs"
  by (induction rs xs rule: list_all2_induct) auto

text \<open>The resolved value of a dimension of the selection is the result of its entry.\<close>

lemma resolved_entry:
  assumes "fst (resolveThemes e s) = Inr r" and "is_obj (currentThemes s)"
    and "obj_get (currentThemes s) d = Some v"
  shows "fst (resolveEntry e s d v) = Inr (the (obj_get r d)) \<and> obj_get r d \<noteq> None"
proof -
  let ?rs = "map (\<lambda>(d, v). (d, fst (resolveEntry e s d v))) (currentThemes s)"
  from assms(1) obtain xs where g: "gather ?rs = Inr xs" and r: "r = fromEntries xs"
    by (auto simp: resolveThemes_gather split: sum.splits)
  note v2 = gather_values [OF g]
  have keys: "map fst xs = map fst (currentThemes s)"
    using values_keys [OF v2] by (simp add: comp_def case_prod_unfold)
  with assms(2) have dist: "distinct (map fst xs)" by (simp add: is_obj_def)
  from assms(3) have m: "(d, v) \<in> set (currentThemes s)"
    by (auto simp: obj_get_def dest: map_of_SomeD)
  from g have "list_all (\<lambda>(k, r). \<exists>x. r = Inr x) ?rs" using gather_Inr_iff by blast
  with m obtain x where x: "fst (resolveEntry e s d v) = Inr x"
    by (force simp: list_all_iff)
  with m have "(d, Inr x) \<in> set ?rs" by force
  from values_member [OF v2 this] have "(d, x) \<in> set xs" .
  with dist have "map_of xs d = Some x" by simp
  then have "obj_get r d = Some x" using r dist by (simp add: obj_get_fromEntries)
  with x show ?thesis by simp
qed

lemma resolved_undefined:
  assumes "fst (resolveThemes e s) = Inr r" and "is_obj (currentThemes s)"
    and "obj_get (currentThemes s) d = Some v" and "lookup_option (config s) d v = None"
  shows "obj_get r d = Some None"
proof -
  from resolved_entry [OF assms(1-3)] resolveEntry_unconfigured [OF assms(4), of e]
  show ?thesis by (auto split: if_splits)
qed

lemma notify_result:
  "fst (notify e s) =
     (if listeners s = [] then Inr ()
      else case fst (resolveThemes e s) of Inl err \<Rightarrow> Inl err | Inr _ \<Rightarrow> Inr ())"
proof (rule notify_cases [where e = e and s = s], goal_cases)
  case 1
  then show ?case by simp
next
  case (2 r s1 fx)
  then show ?case by simp
next
  case (3 err s1 fx)
  then show ?case by simp
qed

lemma setThemes_unknown:
  assumes run: "setThemes e s (Partial upd) = (res, s', fx)"
    and obj: "is_obj upd" and got: "obj_get upd d = Some v"
  shows "obj_get (getThemes s') d = Some v"
    and "\<not> entry_readable e (config s) (d, v) \<Longrightarrow>
           (\<exists>u. fst (getResolvedThemes e s') = Inl (TypeError u))
           \<and> (listeners s \<noteq> [] \<longrightarrow>
                (\<exists>u. res = Inl (TypeError u)) \<and> notifications fx = [] \<and> persist_calls fx = [])"
    and "fst (getResolvedThemes e s') = Inr r \<Longrightarrow>
           notifications fx = map (\<lambda>l. (l, getThemes s', r)) (listeners s)
           \<and> persist_calls fx = [(key s, getStateToPersist s')]"
proof -
  have u: "updated_by (Partial upd) (currentThemes s) = upd" by (simp add: updated_by_def)
  note out = setThemes_outcome [OF run, unfolded u]
  have cur: "currentThemes s' = spread (currentThemes s) upd"
    and cfg: "config s' = config s"
    using same_but_cache_fields(2,5) [OF out(1)] by simp_all
  show a: "obj_get (getThemes s') d = Some v"
    unfolding getThemes_def cur by (rule obj_get_spread_in [OF obj got])
  show "(\<exists>u. fst (getResolvedThemes e s') = Inl (TypeError u))
           \<and> (listeners s \<noteq> [] \<longrightarrow>
                (\<exists>u. res = Inl (TypeError u)) \<and> notifications fx = [] \<and> persist_calls fx = [])"
    if nr: "\<not> entry_readable e (config s) (d, v)"
  proof -
    from a have "(d, v) \<in> set (currentThemes s')"
      by (auto simp: getThemes_def obj_get_def dest: map_of_SomeD)
    with nr cfg have "\<not> list_all (entry_readable e (config s')) (currentThemes s')"
      by (auto simp: list_all_iff)
    from resolveThemes_unreadable [OF this] obtain w where
      w: "fst (resolveThemes e s') = Inl (TypeError w)" by blast
    then have nres: "\<not> resolvable e s'" by (simp add: resolvable_def)
    have "(\<exists>u. res = Inl (TypeError u)) \<and> notifications fx = [] \<and> persist_calls fx = []"
      if "listeners s \<noteq> []"
    proof -
      from that nres have "\<not> (listeners s = [] \<or> resolvable e s')" by simp
      from out(3) [OF this] w show ?thesis by auto
    qed
    with w show ?thesis by (auto simp: getResolvedThemes_def)
  qed
  show "notifications fx = map (\<lambda>l. (l, getThemes s', r)) (listeners s)
           \<and> persist_calls fx = [(key s, getStateToPersist s')]"
    if r: "fst (getResolvedThemes e s') = Inr r"
  proof -
    from r have rs: "fst (resolveThemes e s') = Inr r" by (simp add: getResolvedThemes_def)
    then have "listeners s = [] \<or> resolvable e s'" by (simp add: resolvable_def)
    from out(2) [OF this] obtain pre r' where
      fx: "fx = pre @ [SetItem (key s) (getStateToPersist s')]
                      @ (if setItem (storage s) (key s) (content s' (getStateToPersist s')) = Inr ()
                            \<and> has_broadcast (storage s)
                         then [Broadcast (key s) (getStateToPersist s')] else [])"
      and pc: "persist_calls pre = []"
      and r': "listeners s \<noteq> [] \<longrightarrow> fst (resolveThemes e s') = Inr r'"
      and nts: "notifications pre = map (\<lambda>l. (l, spread (currentThemes s) upd, r')) (listeners s)"
      by blast
    from r' rs have "listeners s \<noteq> [] \<longrightarrow> r' = r" by simp
    with nts cur have "notifications pre = map (\<lambda>l. (l, getThemes s', r)) (listeners s)"
      by (cases "listeners s = []") (simp_all add: getThemes_def)
    with fx pc show ?thesis by simp
  qed
qed

text \<open>
  C10, as the code has it.  A selection within the configuration never makes a
  configuration lookup undefined, and when moreover (in a client) every selected media
  option has an override entry, \<^verbatim>\<open>getResolvedThemes\<close> and every notification pass return.
  Outside the configuration the lookup is what decides: resolution raises a
  \<^verbatim>\<open>TypeError\<close> when the lookup of some entry gives \<^verbatim>\<open>undefined\<close> or \<^verbatim>\<open>null\<close>; but a name
  that plain objects inherit from \<^verbatim>\<open>Object.prototype\<close> is found, and then the dimension
  resolves to \<^verbatim>\<open>undefined\<close> and nothing is raised.  \<^verbatim>\<open>setThemes\<close> accepts every dimension
  and value into the merge: if the lookup of a new entry is undefined, the resolution of
  the new state raises, and with a listener registered \<^verbatim>\<open>setThemes\<close> itself rejects with
  that error before notifying or persisting; if the new state resolves, the listeners
  are notified with the resolved view and the selection is handed to \<^verbatim>\<open>setItem\<close>.
\<close>

theorem resolution_total_within_config:
  "(in_config (config s) (getThemes s) \<longrightarrow>
        list_all (entry_readable e (config s)) (getThemes s)
      \<and> fst (getResolvedThemes e s) \<noteq> Inl (TypeError ConfigTheme)
      \<and> fst (getResolvedThemes e s) \<noteq> Inl (TypeError ConfigOption)
      \<and> fst (notify e s) \<noteq> Inl (TypeError ConfigTheme)
      \<and> fst (notify e s) \<noteq> Inl (TypeError ConfigOption))
   \<and> (list_all (entry_readable e (config s)) (getThemes s)
        \<and> (isClient e \<longrightarrow> overridden (config s) (store_systemOptions s) (getThemes s))
      \<longrightarrow> (\<exists>r. fst (getResolvedThemes e s) = Inr r) \<and> fst (notify e s) = Inr ())
   \<and> (\<not> list_all (entry_readable e (config s)) (getThemes s)
      \<longrightarrow> (\<exists>u. fst (getResolvedThemes e s) = Inl (TypeError u))
        \<and> (listeners s \<noteq> [] \<longrightarrow> (\<exists>u. fst (notify e s) = Inl (TypeError u))))
   \<and> (\<forall>r d v. fst (getResolvedThemes e s) = Inr r \<and> is_obj (getThemes s)
         \<and> obj_get (getThemes s) d = Some v \<and> lookup_option (config s) d v = None
         \<longrightarrow> obj_get r d = Some None)
   \<and> (\<forall>upd res s' fx d v.
         setThemes e s (Partial upd) = (res, s', fx) \<and> is_obj upd \<and> obj_get upd d = Some v
         \<longrightarrow> obj_get (getThemes s') d = Some v
           \<and> (\<not> entry_readable e (config s) (d, v) \<longrightarrow>
                (\<exists>u. fst (getResolvedThemes e s') = Inl (TypeError u))
                \<and> (listeners s \<noteq> [] \<longrightarrow>
                     (\<exists>u. res = Inl (TypeError u)) \<and> notifications fx = []
                     \<and> persist_calls fx = []))
           \<and> (\<forall>r. fst (getResolvedThemes e s') = Inr r \<longrightarrow>
                notifications fx = map (\<lambda>l. (l, getThemes s', r)) (listeners s)
                \<and> persist_calls fx = [(key s, getStateToPersist s')]))"
proof (intro conjI impI allI)
  assume a: "in_config (config s) (getThemes s)"
  show rd: "list_all (entry_readable e (config s)) (getThemes s)"
    by (rule in_config_readable [OF a])
  have no: "fst (resolveThemes e s) \<noteq> Inl (TypeError u)" if "u = ConfigTheme \<or> u = ConfigOption" for u
    using resolveThemes_Inl [of e s "TypeError u"] rd that by (auto simp: getThemes_def)
  show "fst (getResolvedThemes e s) \<noteq> Inl (TypeError ConfigTheme)"
    "fst (getResolvedThemes e s) \<noteq> Inl (TypeError ConfigOption)"
    using no by (simp_all add: getResolvedThemes_def)
  show "fst (notify e s) \<noteq> Inl (TypeError ConfigTheme)"
    "fst (notify e s) \<noteq> Inl (TypeError ConfigOption)"
    using no [of ConfigTheme] no [of ConfigOption]
    by (auto simp: notify_result split: sum.splits)
next
  assume a: "list_all (entry_readable e (config s)) (getThemes s)
        \<and> (isClient e \<longrightarrow> overridden (config s) (store_systemOptions s) (getThemes s))"
  then obtain r where r: "fst (resolveThemes e s) = Inr r"
    using resolveThemes_returns [of e s] by (auto simp: getThemes_def)
  then show "\<exists>r. fst (getResolvedThemes e s) = Inr r" by (simp add: getResolvedThemes_def)
  from r show "fst (notify e s) = Inr ()" by (simp add: notify_result)
next
  assume a: "\<not> list_all (entry_readable e (config s)) (getThemes s)"
  then obtain u where u: "fst (resolveThemes e s) = Inl (TypeError u)"
    using resolveThemes_unreadable [of e s] by (auto simp: getThemes_def)
  then show "\<exists>u. fst (getResolvedThemes e s) = Inl (TypeError u)"
    by (simp add: getResolvedThemes_def)
  assume "listeners s \<noteq> []"
  with u show "\<exists>u. fst (notify e s) = Inl (TypeError u)" by (simp add: notify_result)
next
  fix r d v
  assume "fst (getResolvedThemes e s) = Inr r \<and> is_obj (getThemes s)
         \<and> obj_get (getThemes s) d = Some v \<and> lookup_option (config s) d v = None"
  then show "obj_get r d = Some None"
    using resolved_undefined [of e s r d v] by (simp add: getResolvedThemes_def getThemes_def)
next
  fix upd res s' fx d v
  assume a: "setThemes e s (Partial upd) = (res, s', fx) \<and> is_obj upd \<and> obj_get upd d = Some v"
  then have run: "setThemes e s (Partial upd) = (res, s', fx)" and obj: "is_obj upd"
    and got: "obj_get upd d = Some v" by simp_all
  note f = setThemes_unknown [OF run obj got]
  show "obj_get (getThemes s') d = Some v" by (rule f(1))
  {
    assume nr: "\<not> entry_readable e (config s) (d, v)"
    from f(2) [OF nr] show "\<exists>u. fst (getResolvedThemes e s') = Inl (TypeError u)" by blast
    assume "listeners s \<noteq> []"
    with f(2) [OF nr] show "\<exists>u. res = Inl (TypeError u)" "notifications fx = []"
      "persist_calls fx = []" by blast+
  }
  fix r
  assume "fst (getResolvedThemes e s') = Inr r"
  from f(3) [OF this] show "notifications fx = map (\<lambda>l. (l, getThemes s', r)) (listeners s)"
    "persist_calls fx = [(key s, getStateToPersist s')]" by blast+
qed

text \<open>
  A selection outside the configuration need not make resolution raise.  The option
  name \<^verbatim>\<open>toString\<close> is not configured for the colour scheme, but the lookup finds the
  function every object inherits: \<^verbatim>\<open>setThemes\<close> succeeds, both subscribers are notified
  with a resolved view whose colour scheme is \<^verbatim>\<open>undefined\<close>, and the selection is handed
  to \<^verbatim>\<open>setItem\<close>.  The same holds for the unknown dimension \<^verbatim>\<open>constructor\<close> with the value
  \<^verbatim>\<open>name\<close>.  And a selection within the configuration need not resolve: after a watch
  event without override pairs the pair of the selected media option is undefined.
\<close>

theorem inherited_name_resolves_undefined:
  "lookup_option (config observed_store) ''colorScheme'' ''toString'' = None
   \<and> \<not> in_config (config observed_store)
         (getThemes (fst (snd (setThemes light_env observed_store
            (Partial [(''colorScheme'', ''toString'')])))))
   \<and> fst (setThemes light_env observed_store (Partial [(''colorScheme'', ''toString'')])) = Inr ()
   \<and> notifications (snd (snd (setThemes light_env observed_store
         (Partial [(''colorScheme'', ''toString'')]))))
     = [(1, [(''colorScheme'', ''toString''), (''contrast'', ''standard'')],
            [(''colorScheme'', None), (''contrast'', Some ''standard'')]),
        (2, [(''colorScheme'', ''toString''), (''contrast'', ''standard'')],
            [(''colorScheme'', None), (''contrast'', Some ''standard'')])]
   \<and> persist_calls (snd (snd (setThemes light_env observed_store
         (Partial [(''colorScheme'', ''toString'')]))))
     = [(''palettez'',
         \<lparr>ref_version = 1,
          ref_themes = [(''colorScheme'', ''toString''), (''contrast'', ''standard'')],
          ref_systemOptions = 0\<rparr>)]
   \<and> lookup_option (config observed_store) ''constructor'' ''name'' = None
   \<and> fst (getResolvedThemes light_env
            (fst (snd (setThemes light_env observed_store (Partial [(''constructor'', ''name'')])))))
     = Inr [(''colorScheme'', Some ''light''), (''contrast'', Some ''standard''),
            (''constructor'', None)]
   \<and> in_config (config synced_store) (getThemes synced_store)
   \<and> fst (getResolvedThemes light_env synced_store) = Inl (TypeError SystemOption)"
  by code_simp

theorem resolution_total_within_config_witness:
  "fst (notify light_env observed_store) = Inr ()
   \<and> (\<exists>r. fst (getResolvedThemes light_env observed_store) = Inr r)
   \<and> obj_get (getThemes (fst (snd (setThemes light_env observed_store
          (Partial [(''bogus'', ''x'')]))))) ''bogus'' = Some ''x''
   \<and> (\<exists>u. fst (setThemes light_env observed_store (Partial [(''bogus'', ''x'')]))
          = Inl (TypeError u))
   \<and> notifications (snd (snd (setThemes light_env observed_store
          (Partial [(''bogus'', ''x'')])))) = []
   \<and> persist_calls (snd (snd (setThemes light_env observed_store
          (Partial [(''bogus'', ''x'')])))) = []
   \<and> notifications (snd (snd (setThemes light_env observed_store
          (Partial [(''colorScheme'', ''toString'')]))))
     = [(1, [(''colorScheme'', ''toString''), (''contrast'', ''standard'')],
            [(''colorScheme'', None), (''contrast'', Some ''standard'')]),
        (2, [(''colorScheme'', ''toString''), (''contrast'', ''standard'')],
            [(''colorScheme'', None), (''contrast'', Some ''standard'')])]"
proof -
  let ?run = "setThemes light_env observed_store (Partial [(''bogus'', ''x'')])"
  let ?inh = "setThemes light_env observed_store (Partial [(''colorScheme'', ''toString'')])"
  note inst = resolution_total_within_config [of observed_store light_env]
  have inc: "in_config (config observed_store) (getThemes observed_store)" by code_simp
  have ov: "overridden (config observed_store) (store_systemOptions observed_store)
              (getThemes observed_store)" by code_simp
  have run: "?run = (fst ?run, fst (snd ?run), snd (snd ?run))" by simp
  have obj: "is_obj [(''bogus'', ''x'')]" by code_simp
  have got: "obj_get [(''bogus'', ''x'')] ''bogus'' = Some ''x''" by code_simp
  have out: "\<not> entry_readable light_env (config observed_store) (''bogus'', ''x'')" by code_simp
  have ls: "listeners observed_store \<noteq> []" by code_simp
  from inst inc have rd: "list_all (entry_readable light_env (config observed_store))
                            (getThemes observed_store)" by blast
  from inst rd ov
  have a: "fst (notify light_env observed_store) = Inr ()"
    and b: "\<exists>r. fst (getResolvedThemes light_env observed_store) = Inr r"
    by blast+
  from inst have sT: "\<forall>upd res s' fx d v.
         setThemes light_env observed_store (Partial upd) = (res, s', fx) \<and> is_obj upd
         \<and> obj_get upd d = Some v
         \<longrightarrow> obj_get (getThemes s') d = Some v
           \<and> (\<not> entry_readable light_env (config observed_store) (d, v) \<longrightarrow>
                (\<exists>u. fst (getResolvedThemes light_env s') = Inl (TypeError u))
                \<and> (listeners observed_store \<noteq> [] \<longrightarrow>
                     (\<exists>u. res = Inl (TypeError u)) \<and> notifications fx = []
                     \<and> persist_calls fx = []))
           \<and> (\<forall>r. fst (getResolvedThemes light_env s') = Inr r \<longrightarrow>
                notifications fx = map (\<lambda>l. (l, getThemes s', r)) (listeners observed_store)
                \<and> persist_calls fx = [(key observed_store, getStateToPersist s')])"
    by blast
  from sT [rule_format, of "[(''bogus'', ''x'')]" "fst ?run" "fst (snd ?run)" "snd (snd ?run)"
      "''bogus''" "''x''"] run obj got out ls
  have c: "obj_get (getThemes (fst (snd ?run))) ''bogus'' = Some ''x''"
    and d: "\<exists>u. fst ?run = Inl (TypeError u)"
    and e: "notifications (snd (snd ?run)) = []"
    and f: "persist_calls (snd (snd ?run)) = []"
    by blast+
  have inh: "?inh = (fst ?inh, fst (snd ?inh), snd (snd ?inh))" by simp
  have obj2: "is_obj [(''colorScheme'', ''toString'')]" by code_simp
  have got2: "obj_get [(''colorScheme'', ''toString'')] ''colorScheme'' = Some ''toString''"
    by code_simp
  have rs: "fst (getResolvedThemes light_env (fst (snd ?inh)))
              = Inr [(''colorScheme'', None), (''contrast'', Some ''standard'')]"
    by code_simp
  have gt: "getThemes (fst (snd ?inh)) = [(''colorScheme'', ''toString''), (''contrast'', ''standard'')]"
    by code_simp
  have lso: "listeners observed_store = [1, 2]" by code_simp
  from sT [rule_format, of "[(''colorScheme'', ''toString'')]" "fst ?inh" "fst (snd ?inh)"
      "snd (snd ?inh)" "''colorScheme''" "''toString''"] inh obj2 got2 rs
  have "notifications (snd (snd ?inh))
          = map (\<lambda>l. (l, getThemes (fst (snd ?inh)),
                       [(''colorScheme'', None), (''contrast'', Some ''standard'')]))
              (listeners observed_store)"
    by blast
  then have g: "notifications (snd (snd ?inh))
     = [(1, [(''colorScheme'', ''toString''), (''contrast'', ''standard'')],
            [(''colorScheme'', None), (''contrast'', Some ''standard'')]),
        (2, [(''colorScheme'', ''toString''), (''contrast'', ''standard'')],
            [(''colorScheme'', None), (''contrast'', Some ''standard'')])]"
    unfolding gt lso by simp
  show ?thesis by (intro conjI a b c d e f g)
qed

end
